theory Spec2Isabelle
  imports Main "HOL-Library.Multiset" "HOL-Library.Char_ord" "HOL-Library.List_Lexorder"
begin

section \<open>The word-list manager \<^verbatim>\<open>manage.py\<close>\<close>

text \<open>
  A shallow embedding of \<^verbatim>\<open>manage.py\<close>: the language index
  (\<^verbatim>\<open>LanguageDataIndex\<close>, \<^verbatim>\<open>LanguageDataIndexPayload\<close>), the collation sort
  (\<^verbatim>\<open>sort_word_list\<close>), the merge (\<^verbatim>\<open>merge_language_files\<close>) and the three
  commands of \<^verbatim>\<open>cli\<close>.

  Python's \<^verbatim>\<open>str\<close> is modelled by \<^typ>\<open>string\<close>, read as the UTF-8 bytes of the
  text: every operation of the program on text (splitting at line feeds, concatenation,
  normalisation, sort keys) is the same on code points and on their UTF-8 bytes. Files hold
  text that decodes in the platform's encoding; line ends are written as on POSIX.
\<close>

subsection \<open>Exceptions\<close>

text \<open>
  A message is the f-string of the source, fragment by fragment: literal text, a value
  formatted with \<^verbatim>\<open>str\<close> and a value formatted with \<^verbatim>\<open>!r\<close>.
\<close>

datatype fragment = Text string | Str string | Repr string

type_synonym message = "fragment list"

text \<open>
  \<open>OSError\<close> is an error of the operating system that the program does not catch; it
  carries the path of the call that failed.
\<close>

datatype exn = LanguageDataError message | SystemExit message | OSError string

text \<open>
  The exceptions of the program, one for each \<^verbatim>\<open>raise\<close>, in the order of the source:
  in \<^verbatim>\<open>get_path\<close>, \<^verbatim>\<open>read_language_file\<close>, \<^verbatim>\<open>write_to_language_file\<close>, four in
  \<^verbatim>\<open>__enter__\<close>, two in \<^verbatim>\<open>sort_word_list\<close> and one in \<^verbatim>\<open>merge_language_files\<close>.
\<close>

definition unrecognized_language :: "string \<Rightarrow> exn" where
  "unrecognized_language lang = LanguageDataError [Text ''Unrecognized language '', Repr lang]"

definition language_file_unreadable :: "string \<Rightarrow> exn" where
  "language_file_unreadable stem =
     LanguageDataError [Text ''Could not read language file '', Str stem]"

definition language_file_unwritable :: "string \<Rightarrow> exn" where
  "language_file_unwritable stem =
     LanguageDataError
       [Text ''Could not open language file '', Str stem, Text '' for writing'']"

definition index_unreadable :: "string \<Rightarrow> exn" where
  "index_unreadable index_path =
     LanguageDataError [Text ''Could not read language index file '', Str index_path]"

definition index_unparsable :: "string \<Rightarrow> exn" where
  "index_unparsable index_path =
     LanguageDataError [Text ''Could not parse the language index file '', Str index_path]"

definition index_not_dictionary :: "string \<Rightarrow> exn" where
  "index_not_dictionary index_path =
     LanguageDataError
       [Text ''Expected the language index file '', Str index_path,
        Text '' to be a JSON dictionary'']"

definition index_entry_invalid :: "string \<Rightarrow> string \<Rightarrow> exn" where
  "index_entry_invalid key index_path =
     LanguageDataError
       [Text ''Expected the key '', Repr key, Text '' in '', Str index_path,
        Text '' to point to a valid language file'']"

definition icu_missing :: exn where
  "icu_missing = LanguageDataError [Text ''PyICU is needed for proper unicode sorting'']"

definition locale_unavailable :: "string \<Rightarrow> exn" where
  "locale_unavailable lang =
     LanguageDataError [Text ''No ICU locale available for language '', Repr lang]"

definition extra_file_unreadable :: "string \<Rightarrow> exn" where
  "extra_file_unreadable p = SystemExit [Text ''Could not read '', Str p, Text ''. Aborting.'']"

subsection \<open>The file system\<close>

type_synonym path = string

text \<open>
  What happens when a file is opened with mode \<^verbatim>\<open>'w'\<close>: the open is refused, or it
  succeeds (which empties the file) and the device then takes every character, or only the
  first \<open>n\<close> before it reports an error.
\<close>

datatype write_mode = Refused | Quota nat | Unlimited

record regular =
  content :: string
  readable :: bool
  on_write :: write_mode

text \<open>
  What a path names: a regular file, a directory, or something that cannot even be
  examined (no search permission on a directory of the path, a name that is too long):
  there \<^verbatim>\<open>stat\<close> and \<^verbatim>\<open>open\<close> fail with an error that is not ``no such file''.
\<close>

datatype node = Regular regular | Directory | Inaccessible

datatype event = Stat path | Open_read path | Open_write path

text \<open>
  \<open>nodes\<close> is what the paths name, \<open>creatable\<close> says where a new file may be created,
  \<open>events\<close> is the log of the system calls made so far.
\<close>

record filesystem =
  nodes :: "path \<rightharpoonup> node"
  creatable :: "path \<Rightarrow> bool"
  events :: "event list"

definition log_event :: "event \<Rightarrow> filesystem \<Rightarrow> filesystem" where
  "log_event e fs = fs\<lparr>events := events fs @ [e]\<rparr>"

text \<open>
  \<^verbatim>\<open>Path.exists()\<close> calls \<^verbatim>\<open>stat\<close>. It is true of a directory as well as of a file,
  false when \<^verbatim>\<open>stat\<close> finds nothing (\<^verbatim>\<open>ENOENT\<close>, \<^verbatim>\<open>ENOTDIR\<close>, \<^verbatim>\<open>EBADF\<close>,
  \<^verbatim>\<open>ELOOP\<close>), and it raises every other \<^verbatim>\<open>OSError\<close> of \<^verbatim>\<open>stat\<close> again.
\<close>

definition path_exists :: "path \<Rightarrow> filesystem \<Rightarrow> (exn + bool) \<times> filesystem" where
  "path_exists p fs =
     ((case nodes fs p of
         None \<Rightarrow> Inr False
       | Some Inaccessible \<Rightarrow> Inl (OSError p)
       | Some (Regular f) \<Rightarrow> Inr True
       | Some Directory \<Rightarrow> Inr True),
      log_event (Stat p) fs)"

text \<open>The paths of which \<^verbatim>\<open>Path.exists()\<close> is true.\<close>

definition present :: "filesystem \<Rightarrow> path \<Rightarrow> bool" where
  "present fs p =
     (case nodes fs p of
        None \<Rightarrow> False
      | Some Inaccessible \<Rightarrow> False
      | Some (Regular f) \<Rightarrow> True
      | Some Directory \<Rightarrow> True)"

abbreviation LF :: char where "LF \<equiv> CHR 0x0A"
abbreviation CR :: char where "CR \<equiv> CHR 0x0D"

text \<open>
  Text mode with the default \<^verbatim>\<open>newline=None\<close>: on input \<^verbatim>\<open>'\r\n'\<close> and a lone
  \<^verbatim>\<open>'\r'\<close> become \<^verbatim>\<open>'\n'\<close>.
\<close>

fun universal_newlines :: "string \<Rightarrow> string" where
  "universal_newlines [] = []"
| "universal_newlines [c] = (if c = CR then [LF] else [c])"
| "universal_newlines (c # d # cs) =
     (if c = CR then
        (if d = LF then LF # universal_newlines cs else LF # universal_newlines (d # cs))
      else c # universal_newlines (d # cs))"

text \<open>
  \<^verbatim>\<open>with open(p) as file: file.read()\<close>. \<open>None\<close> is an \<^verbatim>\<open>OSError\<close>: no such file, a
  directory, or a file that may not be read.
\<close>

definition read_text :: "path \<Rightarrow> filesystem \<Rightarrow> string option \<times> filesystem" where
  "read_text p fs =
     ((case nodes fs p of
         Some (Regular f) \<Rightarrow> if readable f then Some (universal_newlines (content f)) else None
       | Some Directory \<Rightarrow> None
       | Some Inaccessible \<Rightarrow> None
       | None \<Rightarrow> None),
      log_event (Open_read p) fs)"

text \<open>\<^verbatim>\<open>file.readlines()\<close>: the lines, each with its line feed; the last may lack one.\<close>

fun readlines :: "string \<Rightarrow> string list" where
  "readlines [] = []"
| "readlines (c # cs) =
     (if c = LF then [c] # readlines cs
      else (case readlines cs of [] \<Rightarrow> [[c]] | l # ls \<Rightarrow> (c # l) # ls))"

text \<open>
  \<^verbatim>\<open>with open(p, 'w') as file: file.writelines(words)\<close>. The result is \<open>False\<close> for an
  \<^verbatim>\<open>OSError\<close>. \<^verbatim>\<open>writelines\<close> writes the strings one after the other and adds
  nothing between them.
\<close>

definition write_lines :: "path \<Rightarrow> string list \<Rightarrow> filesystem \<Rightarrow> bool \<times> filesystem" where
  "write_lines p words fs =
     (let fs1 = log_event (Open_write p) fs; text = concat words in
      case nodes fs p of
        None \<Rightarrow>
          if creatable fs p
          then (True, fs1\<lparr>nodes := (nodes fs)(p \<mapsto>
                  Regular \<lparr>content = text, readable = True, on_write = Unlimited\<rparr>)\<rparr>)
          else (False, fs1)
      | Some Directory \<Rightarrow> (False, fs1)
      | Some Inaccessible \<Rightarrow> (False, fs1)
      | Some (Regular f) \<Rightarrow>
          (case on_write f of
             Refused \<Rightarrow> (False, fs1)
           | Unlimited \<Rightarrow>
               (True, fs1\<lparr>nodes := (nodes fs)(p \<mapsto> Regular (f\<lparr>content := text\<rparr>))\<rparr>)
           | Quota n \<Rightarrow>
               (length text \<le> n,
                fs1\<lparr>nodes := (nodes fs)(p \<mapsto> Regular (f\<lparr>content := take n text\<rparr>))\<rparr>)))"

text \<open>
  \<^verbatim>\<open>root / name\<close> of \<^verbatim>\<open>pathlib\<close>: an absolute right operand replaces the left one.
  Paths are kept as they are spelt.
\<close>

definition path_div :: "path \<Rightarrow> string \<Rightarrow> path" where
  "path_div root name =
     (case name of
        [] \<Rightarrow> root
      | c # _ \<Rightarrow> if c = CHR ''/'' then name else root @ ''/'' @ name)"

subsection \<open>What the program imports\<close>

text \<open>The value that \<^verbatim>\<open>json.load\<close> returns; a float is kept as its literal.\<close>

datatype pyval =
    PyNone
  | PyBool bool
  | PyInt int
  | PyFloat string
  | PyStr string
  | PyList "pyval list"
  | PyDict "(string \<times> pyval) list"

datatype icu_locale = Locale string

datatype strength = PRIMARY | SECONDARY | TERTIARY | QUATERNARY | IDENTICAL

record collator =
  col_locale :: icu_locale
  col_strength :: strength

text \<open>
  The module \<^verbatim>\<open>icu\<close>: the dictionary of \<^verbatim>\<open>Locale.getAvailableLocales()\<close> and the
  sort key of a collator, a value of a linear order \<open>'k\<close> (ICU's keys are byte strings).
\<close>

record 'k icu =
  getAvailableLocales :: "string \<rightharpoonup> icu_locale"
  getSortKey :: "collator \<Rightarrow> string \<Rightarrow> 'k"

definition createInstance :: "icu_locale \<Rightarrow> collator" where
  "createInstance l = \<lparr>col_locale = l, col_strength = TERTIARY\<rparr>"

definition setStrength :: "strength \<Rightarrow> collator \<Rightarrow> collator" where
  "setStrength s c = c\<lparr>col_strength := s\<rparr>"

text \<open>
  The platform the program runs on: \<^verbatim>\<open>unicodedata.normalize('NFC', _)\<close>, \<^verbatim>\<open>json.load\<close>
  on the text of a file (\<open>None\<close> is \<^verbatim>\<open>JSONDecodeError\<close>), \<^verbatim>\<open>import icu\<close> (\<open>None\<close>
  is \<^verbatim>\<open>ImportError\<close>), and the order in which a \<^verbatim>\<open>set\<close> built by the given
  insertions is iterated.
\<close>

record 'k platform =
  normalize_NFC :: "string \<Rightarrow> string"
  json_load :: "string \<Rightarrow> pyval option"
  import_icu :: "'k icu option"
  set_iteration :: "string list \<Rightarrow> string list"

subsection \<open>\<^verbatim>\<open>LanguageDataIndexPayload\<close>\<close>

text \<open>\<open>path_mapping\<close> is a \<^verbatim>\<open>dict[str, str]\<close>, kept in insertion order.\<close>

record payload =
  root_path :: path
  path_mapping :: "(string \<times> string) list"

definition get_lang_codes :: "payload \<Rightarrow> string list" where
  "get_lang_codes idx = map fst (path_mapping idx)"

definition get_path :: "payload \<Rightarrow> string \<Rightarrow> exn + path" where
  "get_path idx lang =
     (case map_of (path_mapping idx) lang of
        None \<Rightarrow> Inl (unrecognized_language lang)
      | Some stem \<Rightarrow> Inr (path_div (root_path idx) (stem @ ''.txt'')))"

text \<open>
  In both handlers \<^verbatim>\<open>self.path_mapping[lang]\<close> is read only after \<^verbatim>\<open>get_path\<close> has
  returned, so the key is there.
\<close>

definition read_language_file ::
  "payload \<Rightarrow> string \<Rightarrow> filesystem \<Rightarrow> (exn + string list) \<times> filesystem" where
  "read_language_file idx lang fs =
     (case get_path idx lang of
        Inl e \<Rightarrow> (Inl e, fs)
      | Inr p \<Rightarrow>
          (case read_text p fs of
             (Some text, fs1) \<Rightarrow> (Inr (readlines text), fs1)
           | (None, fs1) \<Rightarrow>
               (Inl (language_file_unreadable (the (map_of (path_mapping idx) lang))), fs1)))"

definition write_to_language_file ::
  "payload \<Rightarrow> string \<Rightarrow> string list \<Rightarrow> filesystem \<Rightarrow> (exn + unit) \<times> filesystem" where
  "write_to_language_file idx lang words fs =
     (case get_path idx lang of
        Inl e \<Rightarrow> (Inl e, fs)
      | Inr p \<Rightarrow>
          (case write_lines p words fs of
             (True, fs1) \<Rightarrow> (Inr (), fs1)
           | (False, fs1) \<Rightarrow>
               (Inl (language_file_unwritable (the (map_of (path_mapping idx) lang))), fs1)))"

subsection \<open>\<^verbatim>\<open>LanguageDataIndex.__enter__\<close>\<close>

text \<open>
  The loop over \<^verbatim>\<open>path_mapping.items()\<close>. \<^verbatim>\<open>exists()\<close> is called only for a value
  that is a string, and outside any \<^verbatim>\<open>try\<close>: an error that it raises leaves
  \<^verbatim>\<open>__enter__\<close> as it is.
\<close>

fun check_items ::
  "path \<Rightarrow> path \<Rightarrow> (string \<times> pyval) list \<Rightarrow> filesystem
     \<Rightarrow> (exn + (string \<times> string) list) \<times> filesystem" where
  "check_items root index_path [] fs = (Inr [], fs)"
| "check_items root index_path ((key, val) # rest) fs =
     (case val of
        PyStr stem \<Rightarrow>
          (case path_exists (path_div root (stem @ ''.txt'')) fs of
             (Inl e, fs1) \<Rightarrow> (Inl e, fs1)
           | (Inr True, fs1) \<Rightarrow>
               (case check_items root index_path rest fs1 of
                  (Inl e, fs2) \<Rightarrow> (Inl e, fs2)
                | (Inr m, fs2) \<Rightarrow> (Inr ((key, stem) # m), fs2))
           | (Inr False, fs1) \<Rightarrow>
               (Inl (index_entry_invalid key index_path), fs1))
      | _ \<Rightarrow>
          (Inl (index_entry_invalid key index_path), fs))"

text \<open>The entries that pass the loop: a string for which \<^verbatim>\<open>exists()\<close> is true.\<close>

definition entry_ok :: "filesystem \<Rightarrow> path \<Rightarrow> pyval \<Rightarrow> bool" where
  "entry_ok fs root val =
     (case val of
        PyStr stem \<Rightarrow> present fs (path_div root (stem @ ''.txt''))
      | _ \<Rightarrow> False)"

definition enter :: "'k platform \<Rightarrow> path \<Rightarrow> filesystem \<Rightarrow> (exn + payload) \<times> filesystem" where
  "enter pf root fs =
     (let index_path = path_div root ''languages.json'' in
      case read_text index_path fs of
        (None, fs1) \<Rightarrow>
          (Inl (index_unreadable index_path), fs1)
      | (Some text, fs1) \<Rightarrow>
          (case json_load pf text of
             None \<Rightarrow>
               (Inl (index_unparsable index_path), fs1)
           | Some (PyDict items) \<Rightarrow>
               (case check_items root index_path items fs1 of
                  (Inl e, fs2) \<Rightarrow> (Inl e, fs2)
                | (Inr m, fs2) \<Rightarrow> (Inr \<lparr>root_path = root, path_mapping = m\<rparr>, fs2))
           | Some _ \<Rightarrow>
               (Inl (index_not_dictionary index_path), fs1)))"

subsection \<open>\<^verbatim>\<open>sort_word_list\<close>\<close>

text \<open>\<^verbatim>\<open>sorted(words, key=...)\<close> is a stable sort by the key, as \<^const>\<open>sort_key\<close> is.\<close>

definition sort_word_list :: "('k::linorder) platform \<Rightarrow> string \<Rightarrow> string list \<Rightarrow> exn + string list" where
  "sort_word_list pf lang words =
     (case import_icu pf of
        None \<Rightarrow> Inl icu_missing
      | Some icu \<Rightarrow>
          (case getAvailableLocales icu lang of
             None \<Rightarrow>
               Inl (locale_unavailable lang)
           | Some l \<Rightarrow>
               (let collator = setStrength IDENTICAL (createInstance l)
                in Inr (sort_key (getSortKey icu collator) words))))"

subsection \<open>\<^verbatim>\<open>merge_language_files\<close>\<close>

text \<open>
  The \<^verbatim>\<open>set\<close> \<open>word_bag\<close> is the list of its elements in the order of their first
  insertion; \<^const>\<open>set_iteration\<close> gives the order in which Python iterates it.
\<close>

definition bag_add :: "string \<Rightarrow> string list \<Rightarrow> string list" where
  "bag_add w bag = (if w \<in> set bag then bag else bag @ [w])"

definition bag_add_all :: "'k platform \<Rightarrow> string list \<Rightarrow> string list \<Rightarrow> string list" where
  "bag_add_all pf lines bag = foldl (\<lambda>b word. bag_add (normalize_NFC pf word) b) bag lines"

text \<open>The loop over \<open>new_paths\<close>.\<close>

fun read_new_paths ::
  "'k platform \<Rightarrow> path list \<Rightarrow> string list \<Rightarrow> filesystem
     \<Rightarrow> (exn + string list) \<times> filesystem" where
  "read_new_paths pf [] bag fs = (Inr bag, fs)"
| "read_new_paths pf (p # rest) bag fs =
     (case read_text p fs of
        (None, fs1) \<Rightarrow>
          (Inl (extra_file_unreadable p), fs1)
      | (Some text, fs1) \<Rightarrow>
          read_new_paths pf rest (bag_add_all pf (readlines text) bag) fs1)"

definition merge_language_files ::
  "('k::linorder) platform \<Rightarrow> payload \<Rightarrow> string \<Rightarrow> path list \<Rightarrow> filesystem
     \<Rightarrow> (exn + unit) \<times> filesystem" where
  "merge_language_files pf lang_index lang new_paths fs =
     (case read_language_file lang_index lang fs of
        (Inl e, fs1) \<Rightarrow> (Inl e, fs1)
      | (Inr lines, fs1) \<Rightarrow>
          (case read_new_paths pf new_paths (bag_add_all pf lines []) fs1 of
             (Inl e, fs2) \<Rightarrow> (Inl e, fs2)
           | (Inr word_bag, fs2) \<Rightarrow>
               (case sort_word_list pf lang (set_iteration pf word_bag) of
                  Inl e \<Rightarrow> (Inl e, fs2)
                | Inr words \<Rightarrow> write_to_language_file lang_index lang words fs2)))"

text \<open>
  For the statements below: the lines of the extra files that can be read, file after file,
  and the path of the file of a language.
\<close>

definition extra_lines :: "filesystem \<Rightarrow> path list \<Rightarrow> string list" where
  "extra_lines fs ps =
     concat (map (\<lambda>p. case fst (read_text p fs) of None \<Rightarrow> [] | Some doc \<Rightarrow> readlines doc) ps)"

definition language_path :: "payload \<Rightarrow> string \<Rightarrow> path" where
  "language_path idx stem = path_div (root_path idx) (stem @ ''.txt'')"

subsection \<open>\<^verbatim>\<open>cli\<close>\<close>


text \<open>The loop of \<^verbatim>\<open>sort-all\<close> over \<^verbatim>\<open>get_lang_codes()\<close>.\<close>

fun sort_each ::
  "('k::linorder) platform \<Rightarrow> payload \<Rightarrow> string list \<Rightarrow> filesystem
     \<Rightarrow> (exn + unit) \<times> filesystem" where
  "sort_each pf lang_index [] fs = (Inr (), fs)"
| "sort_each pf lang_index (code # rest) fs =
     (case merge_language_files pf lang_index code [] fs of
        (Inl e, fs1) \<Rightarrow> (Inl e, fs1)
      | (Inr u, fs1) \<Rightarrow> sort_each pf lang_index rest fs1)"


subsection \<open>A small platform and disk to run the program on\<close>

text \<open>
  The part of NFC that composes \<^verbatim>\<open>e\<close> followed by U+0301 (combining acute accent, UTF-8
  \<^verbatim>\<open>CC 81\<close>) into U+00E9 (UTF-8 \<^verbatim>\<open>C3 A9\<close>) and leaves all other text as it is.
\<close>

fun nfc_demo :: "string \<Rightarrow> string" where
  "nfc_demo (a # b # c # cs) =
     (if a = CHR ''e'' \<and> b = CHR 0xCC \<and> c = CHR 0x81 then CHR 0xC3 # CHR 0xA9 # nfc_demo cs
      else a # nfc_demo (b # c # cs))"
| "nfc_demo cs = cs"

text \<open>The two spellings of \<^verbatim>\<open>e\<close> with acute accent, as UTF-8.\<close>

definition e_acute_composed :: string where
  "e_acute_composed = [CHR 0xC3, CHR 0xA9]"

definition e_acute_decomposed :: string where
  "e_acute_decomposed = [CHR ''e'', CHR 0xCC, CHR 0x81]"

text \<open>A JSON reader that knows six documents.\<close>

definition json_demo :: "string \<Rightarrow> pyval option" where
  "json_demo = map_of
     [(''{\"en\": \"english\", \"fr\": \"french\"}'',
         PyDict [(''en'', PyStr ''english''), (''fr'', PyStr ''french'')]),
      (''{\"en\": \"english\", \"de\": \"german\"}'',
         PyDict [(''en'', PyStr ''english''), (''de'', PyStr ''german'')]),
      (''{\"en\": \"/srv/english\"}'', PyDict [(''en'', PyStr ''/srv/english'')]),
      (''{\"en\": \"private/english\"}'', PyDict [(''en'', PyStr ''private/english'')]),
      (''{\"en\": 1}'', PyDict [(''en'', PyInt 1)]),
      (''[\"en\"]'', PyList [PyStr ''en''])]"

text \<open>
  A collation with the locales \<^verbatim>\<open>en\<close> and \<^verbatim>\<open>de\<close> whose sort key is the text itself,
  compared byte by byte.
\<close>

definition icu_demo :: "string icu" where
  "icu_demo =
     \<lparr>getAvailableLocales = map_of [(''en'', Locale ''en''), (''de'', Locale ''de'')],
      getSortKey = (\<lambda>c w. w)\<rparr>"

definition demo :: "string platform" where
  "demo =
     \<lparr>normalize_NFC = nfc_demo, json_load = json_demo, import_icu = Some icu_demo,
      set_iteration = rev\<rparr>"

definition text_file :: "string \<Rightarrow> node" where
  "text_file s = Regular \<lparr>content = s, readable = True, on_write = Unlimited\<rparr>"

definition quota_file :: "nat \<Rightarrow> string \<Rightarrow> node" where
  "quota_file n s = Regular \<lparr>content = s, readable = True, on_write = Quota n\<rparr>"

definition disk_of :: "(path \<times> node) list \<Rightarrow> filesystem" where
  "disk_of entries = \<lparr>nodes = map_of entries, creatable = (\<lambda>p. False), events = []\<rparr>"

definition demo_index :: payload where
  "demo_index = \<lparr>root_path = ''/w'', path_mapping = [(''en'', ''english''), (''fr'', ''french'')]\<rparr>"

definition demo_registry :: string where
  "demo_registry = ''{\"en\": \"english\", \"fr\": \"french\"}''"

definition demo_disk :: filesystem where
  "demo_disk =
     disk_of
       [(''/w/languages.json'', text_file demo_registry),
        (''/w/english.txt'', text_file ''b\<newline>a\<newline>''),
        (''/w/french.txt'', text_file ''z\<newline>a\<newline>'')]"

section \<open>Properties\<close>

subsection \<open>Lines and system calls\<close>

lemma concat_readlines: "concat (readlines s) = s"
  by (induction s) (auto split: list.splits)

lemma readlines_nonempty: "l \<in> set (readlines s) \<Longrightarrow> l \<noteq> []"
  by (induction s arbitrary: l) (auto split: list.splits if_splits)

lemma nodes_log_event: "nodes (log_event e fs) = nodes fs"
  and creatable_log_event: "creatable (log_event e fs) = creatable fs"
  and events_log_event: "events (log_event e fs) = events fs @ [e]"
  by (simp_all add: log_event_def)

lemma read_text_split: "read_text p fs = (fst (read_text p fs), log_event (Open_read p) fs)"
  by (simp add: read_text_def)

lemma fst_read_text_cong: "nodes fs1 = nodes fs \<Longrightarrow> fst (read_text p fs1) = fst (read_text p fs)"
  by (simp add: read_text_def)

lemma get_path_unknown:
  "map_of (path_mapping idx) lang = None \<Longrightarrow>
   get_path idx lang = Inl (unrecognized_language lang)"
  by (simp add: get_path_def)

subsection \<open>A language code that the registry does not have\<close>

text \<open>
  Claim C6. With a language code that is not a key of the registry mapping, resolving the
  path, reading, writing and merging (sorting is merging with no extra file) all fail with
  the error for an unrecognised language, and the file system is returned as it was,
  its log of system calls included: no file is looked at, opened or written.
\<close>

theorem unknown_language_rejected:
  assumes "lang \<notin> set (get_lang_codes idx)"
  shows "get_path idx lang = Inl (unrecognized_language lang)
    \<and> read_language_file idx lang fs =
        (Inl (unrecognized_language lang), fs)
    \<and> write_to_language_file idx lang words fs =
        (Inl (unrecognized_language lang), fs)
    \<and> merge_language_files pf idx lang new_paths fs =
        (Inl (unrecognized_language lang), fs)"
proof -
  from assms have "map_of (path_mapping idx) lang = None"
    by (simp add: get_lang_codes_def map_of_eq_None_iff)
  then have g: "get_path idx lang = Inl (unrecognized_language lang)"
    by (rule get_path_unknown)
  have r: "read_language_file idx lang fs =
        (Inl (unrecognized_language lang), fs)"
    by (simp add: read_language_file_def g)
  have w: "write_to_language_file idx lang words fs =
        (Inl (unrecognized_language lang), fs)"
    by (simp add: write_to_language_file_def g)
  have m: "merge_language_files pf idx lang new_paths fs =
        (Inl (unrecognized_language lang), fs)"
    by (simp add: merge_language_files_def r)
  from g r w m show ?thesis by simp
qed

theorem unknown_language_rejected_witness:
  "''xx'' \<notin> set (get_lang_codes demo_index)
   \<and> merge_language_files demo demo_index ''xx'' [''/tmp/new.txt'']
        (disk_of [(''/w/english.txt'', text_file ''b\<newline>a\<newline>'')]) =
      (Inl (unrecognized_language ''xx''),
       disk_of [(''/w/english.txt'', text_file ''b\<newline>a\<newline>'')])"
proof -
  have h: "''xx'' \<notin> set (get_lang_codes demo_index)"
    by (simp add: get_lang_codes_def demo_index_def)
  from unknown_language_rejected [OF h] h show ?thesis by blast
qed

subsection \<open>Sorting needs the collation\<close>

text \<open>
  Claim C5. \<^verbatim>\<open>sort_word_list\<close> fails with the error for a missing PyICU when the
  module cannot be imported, and with the error for a missing locale when ICU has no locale
  for the language code. In both cases there is no sorted list at all. A sorted list is
  returned only when the module and the locale are there, and then it is the stable sort of
  the words by the sort key of that locale's collator at strength \<open>IDENTICAL\<close>.
\<close>

theorem sorting_needs_collation:
  "(import_icu pf = None \<longrightarrow>
      sort_word_list pf lang words =
        Inl icu_missing)
   \<and> (\<forall>icu. import_icu pf = Some icu \<and> getAvailableLocales icu lang = None \<longrightarrow>
      sort_word_list pf lang words =
        Inl (locale_unavailable lang))
   \<and> (\<forall>sorted_words. sort_word_list pf lang words = Inr sorted_words \<longrightarrow>
      (\<exists>icu l. import_icu pf = Some icu \<and> getAvailableLocales icu lang = Some l
         \<and> sorted_words =
             sort_key (getSortKey icu \<lparr>col_locale = l, col_strength = IDENTICAL\<rparr>) words
         \<and> sorted (map (getSortKey icu \<lparr>col_locale = l, col_strength = IDENTICAL\<rparr>) sorted_words)
         \<and> mset sorted_words = mset words))"
  by (auto simp: sort_word_list_def createInstance_def setStrength_def
           split: option.splits)

theorem sorting_needs_collation_witness:
  "sort_word_list (demo\<lparr>import_icu := None\<rparr>) ''en'' [''b\<newline>'', ''a\<newline>''] =
      Inl icu_missing
   \<and> sort_word_list demo ''fr'' [''b\<newline>'', ''a\<newline>''] =
      Inl (locale_unavailable ''fr'')
   \<and> sort_word_list demo ''en'' [''b\<newline>'', ''a\<newline>''] = Inr [''a\<newline>'', ''b\<newline>'']
   \<and> (\<exists>icu l. import_icu demo = Some icu \<and> getAvailableLocales icu ''en'' = Some l
         \<and> [''a\<newline>'', ''b\<newline>''] =
             sort_key (getSortKey icu \<lparr>col_locale = l, col_strength = IDENTICAL\<rparr>)
               [''b\<newline>'', ''a\<newline>''])"
proof -
  have h1: "import_icu (demo\<lparr>import_icu := None\<rparr>) = None"
    by simp
  have h2: "import_icu demo = Some icu_demo \<and> getAvailableLocales icu_demo ''fr'' = None"
    by (simp add: demo_def icu_demo_def)
  have h3: "sort_word_list demo ''en'' [''b\<newline>'', ''a\<newline>''] = Inr [''a\<newline>'', ''b\<newline>'']"
    by code_simp
  from sorting_needs_collation [of "demo\<lparr>import_icu := None\<rparr>" "''en''" "[''b\<newline>'', ''a\<newline>'']"] h1
  have c1: "sort_word_list (demo\<lparr>import_icu := None\<rparr>) ''en'' [''b\<newline>'', ''a\<newline>''] =
      Inl icu_missing"
    by blast
  from sorting_needs_collation [of demo "''fr''" "[''b\<newline>'', ''a\<newline>'']"] h2
  have c2: "sort_word_list demo ''fr'' [''b\<newline>'', ''a\<newline>''] =
      Inl (locale_unavailable ''fr'')"
    by blast
  from sorting_needs_collation [of demo "''en''" "[''b\<newline>'', ''a\<newline>'']"] h3
  have c3: "\<exists>icu l. import_icu demo = Some icu \<and> getAvailableLocales icu ''en'' = Some l
         \<and> [''a\<newline>'', ''b\<newline>''] =
             sort_key (getSortKey icu \<lparr>col_locale = l, col_strength = IDENTICAL\<rparr>)
               [''b\<newline>'', ''a\<newline>'']"
    by blast
  from c1 c2 h3 c3 show ?thesis by blast
qed

subsection \<open>Loading the registry\<close>

lemma present_iff:
  "present fs p \<longleftrightarrow> (\<exists>f. nodes fs p = Some (Regular f)) \<or> nodes fs p = Some Directory"
  by (simp add: present_def split: option.splits node.splits)

lemma entry_ok_iff:
  "entry_ok fs root val \<longleftrightarrow>
     (\<exists>stem. val = PyStr stem \<and> present fs (path_div root (stem @ ''.txt'')))"
  by (cases val) (simp_all add: entry_ok_def)

lemma present_cases:
  obtains (absent) "nodes fs p = None"
  | (inaccessible) "nodes fs p = Some Inaccessible"
  | (present) "present fs p"
proof (cases "nodes fs p")
  case None
  then show ?thesis by (rule absent)
next
  case (Some n)
  then show ?thesis
    by (cases n) (auto simp: present_iff intro: inaccessible present)
qed

lemma present_log_event: "present (log_event e fs) p = present fs p"
  by (simp add: present_iff nodes_log_event)

lemma entry_ok_log_event: "entry_ok (log_event e fs) root val = entry_ok fs root val"
  by (simp add: entry_ok_iff present_log_event)

lemma path_exists_present:
  "present fs p \<Longrightarrow> path_exists p fs = (Inr True, log_event (Stat p) fs)"
  by (auto simp: path_exists_def present_iff)

lemma path_exists_absent:
  "nodes fs p = None \<Longrightarrow> path_exists p fs = (Inr False, log_event (Stat p) fs)"
  by (simp add: path_exists_def)

lemma path_exists_inaccessible:
  "nodes fs p = Some Inaccessible \<Longrightarrow> path_exists p fs = (Inl (OSError p), log_event (Stat p) fs)"
  by (simp add: path_exists_def)

lemma check_items_present:
  "present fs (path_div root (stem @ ''.txt'')) \<Longrightarrow>
   check_items root ip ((key, PyStr stem) # rest) fs =
     (case check_items root ip rest (log_event (Stat (path_div root (stem @ ''.txt''))) fs) of
        (Inl e, fs2) \<Rightarrow> (Inl e, fs2)
      | (Inr m, fs2) \<Rightarrow> (Inr ((key, stem) # m), fs2))"
  by (simp add: path_exists_present)

lemma check_items_absent:
  "nodes fs (path_div root (stem @ ''.txt'')) = None \<Longrightarrow>
   check_items root ip ((key, PyStr stem) # rest) fs =
     (Inl (index_entry_invalid key ip), log_event (Stat (path_div root (stem @ ''.txt''))) fs)"
  by (simp add: path_exists_absent)

lemma check_items_inaccessible:
  "nodes fs (path_div root (stem @ ''.txt'')) = Some Inaccessible \<Longrightarrow>
   check_items root ip ((key, PyStr stem) # rest) fs =
     (Inl (OSError (path_div root (stem @ ''.txt''))),
      log_event (Stat (path_div root (stem @ ''.txt''))) fs)"
  by (simp add: path_exists_inaccessible)

lemma check_items_other:
  "\<forall>stem. val \<noteq> PyStr stem \<Longrightarrow>
   check_items root ip ((key, val) # rest) fs = (Inl (index_entry_invalid key ip), fs)"
  by (cases val) simp_all

lemma check_items_ok:
  assumes "entry_ok fs root val"
  obtains stem where "val = PyStr stem" "present fs (path_div root (stem @ ''.txt''))"
    "check_items root ip ((key, val) # rest) fs =
       (case check_items root ip rest (log_event (Stat (path_div root (stem @ ''.txt''))) fs) of
          (Inl e, fs2) \<Rightarrow> (Inl e, fs2)
        | (Inr m, fs2) \<Rightarrow> (Inr ((key, stem) # m), fs2))"
proof -
  from assms obtain stem where v: "val = PyStr stem"
    and p: "present fs (path_div root (stem @ ''.txt''))"
    unfolding entry_ok_iff by blast
  from v p check_items_present [OF p, where ip=ip and key=key and rest=rest] show ?thesis
    by (intro that) simp_all
qed

lemma check_items_not_ok:
  assumes "\<not> entry_ok fs root val"
  obtains (invalid) fs1 where "\<forall>stem. val = PyStr stem \<longrightarrow> nodes fs (path_div root (stem @ ''.txt'')) = None"
      "check_items root ip ((key, val) # rest) fs = (Inl (index_entry_invalid key ip), fs1)"
      "nodes fs1 = nodes fs"
  | (oserror) stem where "val = PyStr stem"
      "nodes fs (path_div root (stem @ ''.txt'')) = Some Inaccessible"
      "check_items root ip ((key, val) # rest) fs =
         (Inl (OSError (path_div root (stem @ ''.txt''))),
          log_event (Stat (path_div root (stem @ ''.txt''))) fs)"
proof (cases "\<exists>stem. val = PyStr stem")
  case False
  then have n: "\<forall>stem. val \<noteq> PyStr stem" by blast
  from n check_items_other [OF n, where root=root and ip=ip and key=key and rest=rest and fs=fs] show ?thesis
    by (intro invalid [of fs]) simp_all
next
  case True
  then obtain stem where v: "val = PyStr stem" by blast
  show ?thesis
  proof (cases rule: present_cases [where fs=fs and p="path_div root (stem @ ''.txt'')"])
    case absent
    from v absent check_items_absent [OF absent, where ip=ip and key=key and rest=rest] show ?thesis
      by (intro invalid [of "log_event (Stat (path_div root (stem @ ''.txt''))) fs"])
         (simp_all add: nodes_log_event)
  next
    case inaccessible
    from v inaccessible check_items_inaccessible [OF inaccessible, where ip=ip and key=key and rest=rest]
    show ?thesis by (intro oserror [of stem]) simp_all
  next
    case present
    with v assms show ?thesis by (simp add: entry_ok_iff)
  qed
qed

lemma check_items_failure:
  "check_items root ip items fs = (Inl e, fs') \<Longrightarrow>
   (\<exists>key \<in> fst ` set items. e = index_entry_invalid key ip)
   \<or> (\<exists>p. e = OSError p \<and> nodes fs p = Some Inaccessible)"
proof (induction items arbitrary: fs)
  case Nil
  then show ?case by simp
next
  case (Cons kv rest)
  obtain key val where kv: "kv = (key, val)" by (cases kv)
  show ?case
  proof (cases "entry_ok fs root val")
    case True
    from check_items_ok [OF True, where ip=ip and key=key and rest=rest] obtain stem where
      c: "check_items root ip ((key, val) # rest) fs =
       (case check_items root ip rest (log_event (Stat (path_div root (stem @ ''.txt''))) fs) of
          (Inl e, fs2) \<Rightarrow> (Inl e, fs2)
        | (Inr m, fs2) \<Rightarrow> (Inr ((key, stem) # m), fs2))"
      by blast
    obtain r fs2 where
      r: "check_items root ip rest (log_event (Stat (path_div root (stem @ ''.txt''))) fs) = (r, fs2)"
      by (cases "check_items root ip rest (log_event (Stat (path_div root (stem @ ''.txt''))) fs)")
    show ?thesis
    proof (cases r)
      case (Inl e')
      with c r Cons.prems kv have "e' = e" "fs2 = fs'" by simp_all
      with r Inl have "check_items root ip rest
          (log_event (Stat (path_div root (stem @ ''.txt''))) fs) = (Inl e, fs')"
        by simp
      from Cons.IH [OF this] kv show ?thesis by (auto simp: nodes_log_event)
    next
      case (Inr m)
      with c r Cons.prems kv show ?thesis by simp
    qed
  next
    case False
    then show ?thesis
    proof (cases rule: check_items_not_ok [where ip=ip and key=key and rest=rest])
      case (invalid fs1)
      with Cons.prems kv show ?thesis by simp
    next
      case (oserror stem)
      with Cons.prems kv show ?thesis by simp
    qed
  qed
qed

lemma check_items_success:
  "check_items root ip items fs = (Inr m, fs') \<Longrightarrow>
   items = map (\<lambda>(key, stem). (key, PyStr stem)) m
   \<and> (\<forall>(key, stem) \<in> set m. present fs (path_div root (stem @ ''.txt'')))
   \<and> nodes fs' = nodes fs \<and> creatable fs' = creatable fs
   \<and> events fs' = events fs @ map (\<lambda>(key, stem). Stat (path_div root (stem @ ''.txt''))) m"
proof (induction items arbitrary: fs m)
  case Nil
  then show ?case by simp
next
  case (Cons kv rest)
  obtain key val where kv: "kv = (key, val)" by (cases kv)
  have ok: "entry_ok fs root val"
  proof (rule ccontr)
    assume "\<not> entry_ok fs root val"
    then show False
    proof (cases rule: check_items_not_ok [where ip=ip and key=key and rest=rest])
      case (invalid fs1)
      with Cons.prems kv show ?thesis by simp
    next
      case (oserror stem)
      with Cons.prems kv show ?thesis by simp
    qed
  qed
  from check_items_ok [OF ok, where ip=ip and key=key and rest=rest] obtain stem where
    val: "val = PyStr stem" and ex: "present fs (path_div root (stem @ ''.txt''))"
    and c: "check_items root ip ((key, val) # rest) fs =
       (case check_items root ip rest (log_event (Stat (path_div root (stem @ ''.txt''))) fs) of
          (Inl e, fs2) \<Rightarrow> (Inl e, fs2)
        | (Inr m, fs2) \<Rightarrow> (Inr ((key, stem) # m), fs2))"
    by blast
  let ?p = "path_div root (stem @ ''.txt'')"
  obtain r fs2 where r: "check_items root ip rest (log_event (Stat ?p) fs) = (r, fs2)"
    by (cases "check_items root ip rest (log_event (Stat ?p) fs)")
  from c r Cons.prems kv obtain m' where
    rest: "check_items root ip rest (log_event (Stat ?p) fs) = (Inr m', fs')"
    and m: "m = (key, stem) # m'"
    by (cases r) auto
  from Cons.IH [OF rest] kv val m ex show ?case
    by (simp add: nodes_log_event creatable_log_event events_log_event present_log_event)
qed

lemma check_items_complete:
  "\<forall>(key, val) \<in> set items. entry_ok fs root val
   \<Longrightarrow> \<exists>m fs'. check_items root ip items fs = (Inr m, fs')"
proof (induction items arbitrary: fs)
  case Nil
  then show ?case by simp
next
  case (Cons kv rest)
  obtain key val where kv: "kv = (key, val)" by (cases kv)
  from Cons.prems kv have ok: "entry_ok fs root val" by simp
  from check_items_ok [OF ok, where ip=ip and key=key and rest=rest] obtain stem where
    c: "check_items root ip ((key, val) # rest) fs =
       (case check_items root ip rest (log_event (Stat (path_div root (stem @ ''.txt''))) fs) of
          (Inl e, fs2) \<Rightarrow> (Inl e, fs2)
        | (Inr m, fs2) \<Rightarrow> (Inr ((key, stem) # m), fs2))"
    by blast
  let ?fs1 = "log_event (Stat (path_div root (stem @ ''.txt''))) fs"
  from Cons.prems have "\<forall>(key, val) \<in> set rest. entry_ok ?fs1 root val"
    by (simp add: entry_ok_log_event)
  from Cons.IH [OF this] obtain m fs' where "check_items root ip rest ?fs1 = (Inr m, fs')"
    by blast
  with c kv show ?case by simp
qed

lemma check_items_first_bad:
  assumes "\<forall>(k, v) \<in> set pre. entry_ok fs root v"
  shows "(\<forall>stem. val = PyStr stem \<longrightarrow> nodes fs (path_div root (stem @ ''.txt'')) = None) \<Longrightarrow>
      fst (check_items root ip (pre @ (key, val) # post) fs) = Inl (index_entry_invalid key ip)"
    and "val = PyStr stem \<Longrightarrow> nodes fs (path_div root (stem @ ''.txt'')) = Some Inaccessible \<Longrightarrow>
      fst (check_items root ip (pre @ (key, val) # post) fs) =
        Inl (OSError (path_div root (stem @ ''.txt'')))"
  using assms
proof (induction pre arbitrary: fs)
  case Nil
  {
    case 1
    show ?case
    proof (cases "\<exists>stem. val = PyStr stem")
      case True
      then obtain s where v: "val = PyStr s" by blast
      with 1 have "nodes fs (path_div root (s @ ''.txt'')) = None" by blast
      from check_items_absent [OF this, where ip=ip and key=key and rest=post] v show ?thesis by simp
    next
      case False
      then have "\<forall>stem. val \<noteq> PyStr stem" by blast
      from check_items_other [OF this, where root=root and ip=ip and key=key and rest=post and fs=fs] show ?thesis by simp
    qed
  next
    case 2
    from check_items_inaccessible [OF 2(2), where ip=ip and key=key and rest=post] 2(1) show ?case by simp
  }
next
  case (Cons kv pre)
  obtain k v where kv: "kv = (k, v)" by (cases kv)
  {
    case 1
    from 1(2) kv have ok: "entry_ok fs root v" by simp
    from check_items_ok [OF ok, where ip=ip and key=k and rest="pre @ (key, val) # post"] obtain s where
      c: "check_items root ip ((k, v) # pre @ (key, val) # post) fs =
       (case check_items root ip (pre @ (key, val) # post)
               (log_event (Stat (path_div root (s @ ''.txt''))) fs) of
          (Inl e, fs2) \<Rightarrow> (Inl e, fs2)
        | (Inr m, fs2) \<Rightarrow> (Inr ((k, s) # m), fs2))"
      by blast
    let ?fs1 = "log_event (Stat (path_div root (s @ ''.txt''))) fs"
    from 1 have "fst (check_items root ip (pre @ (key, val) # post) ?fs1) =
        Inl (index_entry_invalid key ip)"
      by (intro Cons.IH(1)) (simp_all add: nodes_log_event entry_ok_log_event)
    with c kv show ?case
      by (cases "check_items root ip (pre @ (key, val) # post) ?fs1") simp
  next
    case 2
    from 2(3) kv have ok: "entry_ok fs root v" by simp
    from check_items_ok [OF ok, where ip=ip and key=k and rest="pre @ (key, val) # post"] obtain s where
      c: "check_items root ip ((k, v) # pre @ (key, val) # post) fs =
       (case check_items root ip (pre @ (key, val) # post)
               (log_event (Stat (path_div root (s @ ''.txt''))) fs) of
          (Inl e, fs2) \<Rightarrow> (Inl e, fs2)
        | (Inr m, fs2) \<Rightarrow> (Inr ((k, s) # m), fs2))"
      by blast
    let ?fs1 = "log_event (Stat (path_div root (s @ ''.txt''))) fs"
    from 2 have "fst (check_items root ip (pre @ (key, val) # post) ?fs1) =
        Inl (OSError (path_div root (stem @ ''.txt'')))"
      by (intro Cons.IH(2)) (simp_all add: nodes_log_event entry_ok_log_event)
    with c kv show ?case
      by (cases "check_items root ip (pre @ (key, val) # post) ?fs1") simp
  }
qed

lemma check_items_nodes:
  "check_items root ip items fs = (r, fs') \<Longrightarrow> nodes fs' = nodes fs"
proof (induction items arbitrary: fs r)
  case Nil
  then show ?case by simp
next
  case (Cons kv rest)
  obtain key val where kv: "kv = (key, val)" by (cases kv)
  show ?case
  proof (cases "entry_ok fs root val")
    case True
    from check_items_ok [OF True, where ip=ip and key=key and rest=rest] obtain stem where
      c: "check_items root ip ((key, val) # rest) fs =
       (case check_items root ip rest (log_event (Stat (path_div root (stem @ ''.txt''))) fs) of
          (Inl e, fs2) \<Rightarrow> (Inl e, fs2)
        | (Inr m, fs2) \<Rightarrow> (Inr ((key, stem) # m), fs2))"
      by blast
    obtain r1 fs2 where
      r: "check_items root ip rest (log_event (Stat (path_div root (stem @ ''.txt''))) fs) = (r1, fs2)"
      by (cases "check_items root ip rest (log_event (Stat (path_div root (stem @ ''.txt''))) fs)")
    with c Cons.prems kv have "fs2 = fs'" by (cases r1) auto
    with r have "check_items root ip rest
        (log_event (Stat (path_div root (stem @ ''.txt''))) fs) = (r1, fs')"
      by simp
    from Cons.IH [OF this] show ?thesis by (simp add: nodes_log_event)
  next
    case False
    then show ?thesis
    proof (cases rule: check_items_not_ok [where ip=ip and key=key and rest=rest])
      case (invalid fs1)
      with Cons.prems kv show ?thesis by simp
    next
      case (oserror stem)
      with Cons.prems kv show ?thesis by (simp add: nodes_log_event)
    qed
  qed
qed

lemma enter_not_found:
  "fst (read_text (path_div root ''languages.json'') fs) = None \<Longrightarrow>
   enter pf root fs =
     (Inl (index_unreadable (path_div root ''languages.json'')),
      log_event (Open_read (path_div root ''languages.json'')) fs)"
  unfolding enter_def Let_def
  by (subst read_text_split) simp

lemma enter_not_parsed:
  "fst (read_text (path_div root ''languages.json'') fs) = Some doc \<Longrightarrow>
   json_load pf doc = None \<Longrightarrow>
   enter pf root fs =
     (Inl (index_unparsable (path_div root ''languages.json'')),
      log_event (Open_read (path_div root ''languages.json'')) fs)"
  unfolding enter_def Let_def
  by (subst read_text_split) simp

lemma enter_not_dict:
  "fst (read_text (path_div root ''languages.json'') fs) = Some doc \<Longrightarrow>
   json_load pf doc = Some v \<Longrightarrow> \<forall>items. v \<noteq> PyDict items \<Longrightarrow>
   enter pf root fs =
     (Inl (index_not_dictionary (path_div root ''languages.json'')),
      log_event (Open_read (path_div root ''languages.json'')) fs)"
  unfolding enter_def Let_def
  by (subst read_text_split) (cases v; simp)

lemma enter_dict:
  "fst (read_text (path_div root ''languages.json'') fs) = Some doc \<Longrightarrow>
   json_load pf doc = Some (PyDict items) \<Longrightarrow>
   enter pf root fs =
     (case check_items root (path_div root ''languages.json'') items
             (log_event (Open_read (path_div root ''languages.json'')) fs) of
        (Inl e, fs2) \<Rightarrow> (Inl e, fs2)
      | (Inr m, fs2) \<Rightarrow> (Inr \<lparr>root_path = root, path_mapping = m\<rparr>, fs2))"
  unfolding enter_def Let_def
  by (subst read_text_split) simp

lemma enter_dict_failure:
  assumes rd: "fst (read_text (path_div root ''languages.json'') fs) = Some doc"
    and js: "json_load pf doc = Some (PyDict items)"
    and bad: "enter pf root fs = (Inl e, fs')"
  shows "check_items root (path_div root ''languages.json'') items
             (log_event (Open_read (path_div root ''languages.json'')) fs) = (Inl e, fs')"
proof -
  let ?ip = "path_div root ''languages.json''"
  obtain r fs2 where ci: "check_items root ?ip items (log_event (Open_read ?ip) fs) = (r, fs2)"
    by (cases "check_items root ?ip items (log_event (Open_read ?ip) fs)")
  show ?thesis
  proof (cases r)
    case (Inl e')
    with enter_dict [OF rd js] ci bad have "e' = e" and "fs2 = fs'" by simp_all
    with ci Inl show ?thesis by simp
  next
    case (Inr m)
    with enter_dict [OF rd js] ci bad show ?thesis by simp
  qed
qed

lemma enter_dict_success:
  assumes rd: "fst (read_text (path_div root ''languages.json'') fs) = Some doc"
    and js: "json_load pf doc = Some (PyDict items)"
    and ok: "enter pf root fs = (Inr idx, fs')"
  shows "check_items root (path_div root ''languages.json'') items
             (log_event (Open_read (path_div root ''languages.json'')) fs) = (Inr (path_mapping idx), fs')
         \<and> root_path idx = root"
proof -
  let ?ip = "path_div root ''languages.json''"
  obtain r fs2 where ci: "check_items root ?ip items (log_event (Open_read ?ip) fs) = (r, fs2)"
    by (cases "check_items root ?ip items (log_event (Open_read ?ip) fs)")
  show ?thesis
  proof (cases r)
    case (Inl e')
    with enter_dict [OF rd js] ci ok show ?thesis by simp
  next
    case (Inr m)
    with enter_dict [OF rd js] ci ok have "idx = \<lparr>root_path = root, path_mapping = m\<rparr>" and "fs2 = fs'"
      by simp_all
    with ci Inr show ?thesis by simp
  qed
qed

lemma enter_cases:
  obtains (not_found) "fst (read_text (path_div root ''languages.json'') fs) = None"
  | (not_parsed) doc where "fst (read_text (path_div root ''languages.json'') fs) = Some doc"
      "json_load pf doc = None"
  | (not_dict) doc v where "fst (read_text (path_div root ''languages.json'') fs) = Some doc"
      "json_load pf doc = Some v" "\<forall>items. v \<noteq> PyDict items"
  | (dict) doc items where "fst (read_text (path_div root ''languages.json'') fs) = Some doc"
      "json_load pf doc = Some (PyDict items)"
proof (cases "fst (read_text (path_div root ''languages.json'') fs)")
  case None
  then show ?thesis by (rule not_found)
next
  case (Some doc)
  note rd = this
  show ?thesis
  proof (cases "json_load pf doc")
    case None
    with rd show ?thesis by (rule not_parsed)
  next
    case (Some v)
    show ?thesis
    proof (cases "\<exists>items. v = PyDict items")
      case True
      with Some rd show ?thesis by (auto intro: dict)
    next
      case False
      with Some rd show ?thesis by (auto intro: not_dict)
    qed
  qed
qed

lemma enter_failure:
  assumes "enter pf root fs = (Inl e, fs')"
  shows "e = index_unreadable (path_div root ''languages.json'')
       \<or> e = index_unparsable (path_div root ''languages.json'')
       \<or> e = index_not_dictionary (path_div root ''languages.json'')
       \<or> (\<exists>key. e = index_entry_invalid key (path_div root ''languages.json''))
       \<or> (\<exists>p. e = OSError p \<and> nodes fs p = Some Inaccessible)"
proof (cases rule: enter_cases [where root=root and fs=fs and pf=pf])
  case not_found
  from enter_not_found [OF this, of pf] assms show ?thesis by simp
next
  case (not_parsed doc)
  from enter_not_parsed [OF this] assms show ?thesis by simp
next
  case (not_dict doc v)
  from enter_not_dict [OF this] assms show ?thesis by simp
next
  case (dict doc items)
  from check_items_failure [OF enter_dict_failure [OF dict assms]] show ?thesis
    by (auto simp: nodes_log_event)
qed

lemma enter_nodes: "enter pf root fs = (r, fs') \<Longrightarrow> nodes fs' = nodes fs"
proof (cases rule: enter_cases [where root=root and fs=fs and pf=pf])
  case not_found
  assume "enter pf root fs = (r, fs')"
  with enter_not_found [OF not_found, of pf] show ?thesis by (auto simp: nodes_log_event)
next
  case (not_parsed doc)
  assume "enter pf root fs = (r, fs')"
  with enter_not_parsed [OF not_parsed] show ?thesis by (auto simp: nodes_log_event)
next
  case (not_dict doc v)
  assume "enter pf root fs = (r, fs')"
  with enter_not_dict [OF not_dict] show ?thesis by (auto simp: nodes_log_event)
next
  case (dict doc items)
  assume e: "enter pf root fs = (r, fs')"
  have "\<exists>r1. check_items root (path_div root ''languages.json'') items
             (log_event (Open_read (path_div root ''languages.json'')) fs) = (r1, fs')"
  proof (cases r)
    case (Inl a)
    with enter_dict_failure [OF dict] e show ?thesis by blast
  next
    case (Inr b)
    with enter_dict_success [OF dict] e show ?thesis by blast
  qed
  then obtain r1 where "check_items root (path_div root ''languages.json'') items
             (log_event (Open_read (path_div root ''languages.json'')) fs) = (r1, fs')" ..
  from check_items_nodes [OF this] show ?thesis by (simp add: nodes_log_event)
qed

text \<open>
  Claim C4, as it is stated, asks that every stem of a returned registry resolves to an
  existing file \<^verbatim>\<open>stem.txt\<close> under the root. The check is \<^verbatim>\<open>Path.exists()\<close> on
  \<^verbatim>\<open>root / stem.txt\<close>: it is true of a directory, and for an absolute stem the path is
  not under the root.
\<close>

theorem directory_and_outside_path_accepted:
  "fst (enter demo ''/w''
          (disk_of [(''/w/languages.json'', text_file demo_registry),
                    (''/w/english.txt'', Directory),
                    (''/w/french.txt'', text_file ''z\<newline>'')])) = Inr demo_index
   \<and> fst (enter demo ''/w''
          (disk_of [(''/w/languages.json'', text_file ''{\"en\": \"/srv/english\"}''),
                    (''/srv/english.txt'', text_file ''a\<newline>'')])) =
       Inr \<lparr>root_path = ''/w'', path_mapping = [(''en'', ''/srv/english'')]\<rparr>
   \<and> path_div ''/w'' (''/srv/english'' @ ''.txt'') = ''/srv/english.txt''"
  by code_simp

text \<open>
  Claim C4, amended. \<^verbatim>\<open>__enter__\<close> returns a payload only if \<^verbatim>\<open>languages.json\<close> under
  the root could be read, was parsed as a dictionary, and every value of the dictionary is a
  string \<open>stem\<close> for which \<^verbatim>\<open>Path.exists()\<close> is true of \<^verbatim>\<open>root / stem.txt\<close>, that is, the
  path names a regular file or a directory; the returned mapping is the whole dictionary, and
  the log shows one existence check for each of its entries, made before the payload is
  returned. In every other case \<^verbatim>\<open>__enter__\<close> raises an error and there is no payload: a
  registry is never returned in part. No file is changed in either case.
\<close>

theorem registry_checked_in_full:
  "(\<forall>idx fs'. enter pf root fs = (Inr idx, fs') \<longrightarrow>
      (\<exists>doc. fst (read_text (path_div root ''languages.json'') fs) = Some doc
         \<and> json_load pf doc =
             Some (PyDict (map (\<lambda>(key, stem). (key, PyStr stem)) (path_mapping idx))))
      \<and> root_path idx = root
      \<and> (\<forall>(key, stem) \<in> set (path_mapping idx).
            present fs (path_div root (stem @ ''.txt'')))
      \<and> events fs' = events fs @ Open_read (path_div root ''languages.json'')
            # map (\<lambda>(key, stem). Stat (path_div root (stem @ ''.txt''))) (path_mapping idx)
      \<and> nodes fs' = nodes fs)
   \<and> (\<forall>e fs'. enter pf root fs = (Inl e, fs') \<longrightarrow>
      nodes fs' = nodes fs
      \<and> \<not> (\<exists>doc items. fst (read_text (path_div root ''languages.json'') fs) = Some doc
             \<and> json_load pf doc = Some (PyDict items)
             \<and> (\<forall>(key, val) \<in> set items. \<exists>stem. val = PyStr stem
                   \<and> present fs (path_div root (stem @ ''.txt'')))))"
proof (intro conjI allI impI)
  fix idx fs'
  assume ok: "enter pf root fs = (Inr idx, fs')"
  let ?ip = "path_div root ''languages.json''"
  have "\<exists>doc items. fst (read_text ?ip fs) = Some doc \<and> json_load pf doc = Some (PyDict items)"
  proof (cases rule: enter_cases [where root=root and fs=fs and pf=pf])
    case not_found
    from enter_not_found [OF this, of pf] ok show ?thesis by simp
  next
    case (not_parsed doc)
    from enter_not_parsed [OF this] ok show ?thesis by simp
  next
    case (not_dict doc v)
    from enter_not_dict [OF this] ok show ?thesis by simp
  next
    case (dict doc items)
    then show ?thesis by blast
  qed
  then obtain doc items where rd: "fst (read_text ?ip fs) = Some doc"
    and js: "json_load pf doc = Some (PyDict items)" by blast
  from enter_dict_success [OF rd js ok]
  have ci: "check_items root ?ip items (log_event (Open_read ?ip) fs) = (Inr (path_mapping idx), fs')"
    and idx: "root_path idx = root"
    by simp_all
  note cs = check_items_success [OF ci]
  from cs rd js idx
  show "\<exists>doc. fst (read_text ?ip fs) = Some doc
         \<and> json_load pf doc =
             Some (PyDict (map (\<lambda>(key, stem). (key, PyStr stem)) (path_mapping idx)))"
    by simp
  from idx show "root_path idx = root" by simp
  from cs show "\<forall>(key, stem) \<in> set (path_mapping idx).
            present fs (path_div root (stem @ ''.txt''))"
    by (simp add: present_log_event)
  from cs show "events fs' = events fs @ Open_read ?ip
            # map (\<lambda>(key, stem). Stat (path_div root (stem @ ''.txt''))) (path_mapping idx)"
    by (simp add: events_log_event)
  from cs show "nodes fs' = nodes fs" by (simp add: nodes_log_event)
next
  fix e fs'
  assume bad: "enter pf root fs = (Inl e, fs')"
  from bad show "nodes fs' = nodes fs"
    by (rule enter_nodes)
  let ?ip = "path_div root ''languages.json''"
  show "\<not> (\<exists>doc items. fst (read_text ?ip fs) = Some doc
             \<and> json_load pf doc = Some (PyDict items)
             \<and> (\<forall>(key, val) \<in> set items. \<exists>stem. val = PyStr stem
                   \<and> present fs (path_div root (stem @ ''.txt''))))"
  proof
    assume "\<exists>doc items. fst (read_text ?ip fs) = Some doc
             \<and> json_load pf doc = Some (PyDict items)
             \<and> (\<forall>(key, val) \<in> set items. \<exists>stem. val = PyStr stem
                   \<and> present fs (path_div root (stem @ ''.txt'')))"
    then obtain doc items where rd: "fst (read_text ?ip fs) = Some doc"
      and js: "json_load pf doc = Some (PyDict items)"
      and all: "\<forall>(key, val) \<in> set items. \<exists>stem. val = PyStr stem
                   \<and> present fs (path_div root (stem @ ''.txt''))"
      by blast
    from all have "\<forall>(key, val) \<in> set items. entry_ok (log_event (Open_read ?ip) fs) root val"
      by (simp add: entry_ok_iff present_log_event)
    from check_items_complete [OF this] obtain m fs2
      where "check_items root ?ip items (log_event (Open_read ?ip) fs) = (Inr m, fs2)"
      by blast
    with enter_dict [OF rd js] bad show False by simp
  qed
qed

theorem registry_checked_in_full_witness:
  "enter demo ''/w'' demo_disk = (Inr demo_index, snd (enter demo ''/w'' demo_disk))
   \<and> root_path demo_index = ''/w''
   \<and> present demo_disk ''/w/english.txt'' \<and> present demo_disk ''/w/french.txt''
   \<and> events (snd (enter demo ''/w'' demo_disk)) =
       [Open_read ''/w/languages.json'', Stat ''/w/english.txt'', Stat ''/w/french.txt'']
   \<and> nodes (snd (enter demo ''/w'' demo_disk)) = nodes demo_disk
   \<and> enter demo ''/w'' (disk_of [(''/w/languages.json'', text_file demo_registry),
                                 (''/w/english.txt'', text_file ''b\<newline>a\<newline>'')]) =
       (Inl (index_entry_invalid ''fr'' ''/w/languages.json''),
        snd (enter demo ''/w'' (disk_of [(''/w/languages.json'', text_file demo_registry),
                                 (''/w/english.txt'', text_file ''b\<newline>a\<newline>'')])))
   \<and> nodes (snd (enter demo ''/w'' (disk_of [(''/w/languages.json'', text_file demo_registry),
                                 (''/w/english.txt'', text_file ''b\<newline>a\<newline>'')]))) =
       nodes (disk_of [(''/w/languages.json'', text_file demo_registry),
                       (''/w/english.txt'', text_file ''b\<newline>a\<newline>'')])"
proof -
  let ?bad = "disk_of [(''/w/languages.json'', text_file demo_registry),
                       (''/w/english.txt'', text_file ''b\<newline>a\<newline>'')]"
  have "fst (enter demo ''/w'' demo_disk) = Inr demo_index"
    by code_simp
  then have a: "enter demo ''/w'' demo_disk = (Inr demo_index, snd (enter demo ''/w'' demo_disk))"
    by (simp add: prod_eq_iff)
  have "fst (enter demo ''/w'' ?bad) = Inl (index_entry_invalid ''fr'' ''/w/languages.json'')"
    by code_simp
  then have b: "enter demo ''/w'' ?bad =
      (Inl (index_entry_invalid ''fr'' ''/w/languages.json''), snd (enter demo ''/w'' ?bad))"
    by (simp add: prod_eq_iff)
  have ev: "events demo_disk = []"
    by (simp add: demo_disk_def disk_of_def)
  note t = registry_checked_in_full [of demo "''/w''" demo_disk, THEN conjunct1, rule_format, OF a]
  from t have c: "root_path demo_index = ''/w''"
    and n: "nodes (snd (enter demo ''/w'' demo_disk)) = nodes demo_disk"
    by simp_all
  from t have "\<forall>(key, stem) \<in> set (path_mapping demo_index).
      present demo_disk (path_div ''/w'' (stem @ ''.txt''))"
    by simp
  then have pr: "present demo_disk ''/w/english.txt''" "present demo_disk ''/w/french.txt''"
    by (simp_all add: demo_index_def path_div_def)
  from t have "events (snd (enter demo ''/w'' demo_disk)) =
      events demo_disk @ Open_read (path_div ''/w'' ''languages.json'')
        # map (\<lambda>(key, stem). Stat (path_div ''/w'' (stem @ ''.txt''))) (path_mapping demo_index)"
    by simp
  then have e: "events (snd (enter demo ''/w'' demo_disk)) =
       [Open_read ''/w/languages.json'', Stat ''/w/english.txt'', Stat ''/w/french.txt'']"
    by (simp add: demo_index_def path_div_def ev)
  from registry_checked_in_full [of demo "''/w''" ?bad, THEN conjunct2, rule_format, OF b]
  have d: "nodes (snd (enter demo ''/w'' ?bad)) = nodes ?bad"
    by simp
  from a b c pr e n d show ?thesis by (intro conjI)
qed

subsection \<open>Reading, writing and merging\<close>

lemma get_path_known:
  "map_of (path_mapping idx) lang = Some stem \<Longrightarrow> get_path idx lang = Inr (language_path idx stem)"
  by (simp add: get_path_def language_path_def)

lemma read_language_file_unknown:
  "map_of (path_mapping idx) lang = None \<Longrightarrow>
   read_language_file idx lang fs = (Inl (unrecognized_language lang), fs)"
  by (simp add: read_language_file_def get_path_unknown)

lemma read_language_file_unreadable:
  "map_of (path_mapping idx) lang = Some stem \<Longrightarrow>
   fst (read_text (language_path idx stem) fs) = None \<Longrightarrow>
   read_language_file idx lang fs =
     (Inl (language_file_unreadable stem), log_event (Open_read (language_path idx stem)) fs)"
  unfolding read_language_file_def
  by (subst read_text_split) (simp add: get_path_known)

lemma read_language_file_ok:
  "map_of (path_mapping idx) lang = Some stem \<Longrightarrow>
   fst (read_text (language_path idx stem) fs) = Some doc \<Longrightarrow>
   read_language_file idx lang fs =
     (Inr (readlines doc), log_event (Open_read (language_path idx stem)) fs)"
  unfolding read_language_file_def
  by (subst read_text_split) (simp add: get_path_known)

lemma write_to_language_file_unknown:
  "map_of (path_mapping idx) lang = None \<Longrightarrow>
   write_to_language_file idx lang words fs = (Inl (unrecognized_language lang), fs)"
  by (simp add: write_to_language_file_def get_path_unknown)

lemma write_to_language_file_known:
  "map_of (path_mapping idx) lang = Some stem \<Longrightarrow>
   write_to_language_file idx lang words fs =
     (if fst (write_lines (language_path idx stem) words fs)
      then (Inr (), snd (write_lines (language_path idx stem) words fs))
      else (Inl (language_file_unwritable stem), snd (write_lines (language_path idx stem) words fs)))"
  by (simp add: write_to_language_file_def get_path_known split: prod.splits bool.splits)

lemma events_write_lines:
  "events (snd (write_lines p words fs)) = events fs @ [Open_write p]"
  by (simp add: write_lines_def Let_def events_log_event log_event_def
        split: option.splits node.splits write_mode.splits)

lemma creatable_write_lines:
  "creatable (snd (write_lines p words fs)) = creatable fs"
  by (simp add: write_lines_def Let_def log_event_def
        split: option.splits node.splits write_mode.splits)

lemma nodes_write_lines_other:
  "q \<noteq> p \<Longrightarrow> nodes (snd (write_lines p words fs)) q = nodes fs q"
  by (simp add: write_lines_def Let_def log_event_def
        split: option.splits node.splits write_mode.splits)

lemma write_lines_success:
  "fst (write_lines p words fs) \<Longrightarrow>
   \<exists>f. nodes (snd (write_lines p words fs)) p = Some (Regular f) \<and> content f = concat words"
  by (auto simp: write_lines_def Let_def log_event_def
        split: option.splits node.splits write_mode.splits if_splits)

lemma write_lines_failure:
  "\<not> fst (write_lines p words fs) \<Longrightarrow>
   nodes (snd (write_lines p words fs)) = nodes fs
   \<or> (\<exists>f n. nodes fs p = Some (Regular f) \<and> on_write f = Quota n \<and> n < length (concat words)
        \<and> nodes (snd (write_lines p words fs)) =
            (nodes fs)(p \<mapsto> Regular (f\<lparr>content := take n (concat words)\<rparr>)))"
  by (auto simp: write_lines_def Let_def log_event_def
        split: option.splits node.splits write_mode.splits if_splits)

lemma write_lines_unlimited:
  "nodes fs p = Some (Regular f) \<Longrightarrow> on_write f = Unlimited \<Longrightarrow>
   write_lines p words fs =
     (True, (log_event (Open_write p) fs)
              \<lparr>nodes := (nodes fs)(p \<mapsto> Regular (f\<lparr>content := concat words\<rparr>))\<rparr>)"
  by (simp add: write_lines_def Let_def)

lemma set_bag_add: "set (bag_add w bag) = insert w (set bag)"
  by (auto simp: bag_add_def)

lemma distinct_bag_add: "distinct bag \<Longrightarrow> distinct (bag_add w bag)"
  by (simp add: bag_add_def)

lemma bag_add_all_Nil: "bag_add_all pf [] bag = bag"
  by (simp add: bag_add_all_def)

lemma bag_add_all_Cons:
  "bag_add_all pf (l # ls) bag = bag_add_all pf ls (bag_add (normalize_NFC pf l) bag)"
  by (simp add: bag_add_all_def)

lemma bag_add_all_append:
  "bag_add_all pf (xs @ ys) bag = bag_add_all pf ys (bag_add_all pf xs bag)"
  by (simp add: bag_add_all_def)

lemma set_bag_add_all:
  "set (bag_add_all pf ls bag) = set bag \<union> normalize_NFC pf ` set ls"
  by (induction ls arbitrary: bag) (auto simp: bag_add_all_Nil bag_add_all_Cons set_bag_add)

lemma distinct_bag_add_all:
  "distinct bag \<Longrightarrow> distinct (bag_add_all pf ls bag)"
  by (induction ls arbitrary: bag) (auto simp: bag_add_all_Nil bag_add_all_Cons distinct_bag_add)

lemma read_new_paths_Cons:
  "read_new_paths pf (p # rest) bag fs =
     (case fst (read_text p fs) of
        None \<Rightarrow> (Inl (extra_file_unreadable p), log_event (Open_read p) fs)
      | Some doc \<Rightarrow>
          read_new_paths pf rest (bag_add_all pf (readlines doc) bag) (log_event (Open_read p) fs))"
  by (simp add: read_text_def split: option.splits node.splits)

lemma fst_read_text_log: "fst (read_text p (log_event e fs)) = fst (read_text p fs)"
  by (rule fst_read_text_cong) (rule nodes_log_event)

lemma extra_lines_Nil: "extra_lines fs [] = []"
  by (simp add: extra_lines_def)

lemma extra_lines_log: "extra_lines (log_event e fs) ps = extra_lines fs ps"
  by (simp add: extra_lines_def fst_read_text_log)

lemma extra_lines_Cons_ok:
  "fst (read_text p fs) = Some doc \<Longrightarrow> extra_lines fs (p # ps) = readlines doc @ extra_lines fs ps"
  by (simp add: extra_lines_def)

lemma read_new_paths_success:
  "read_new_paths pf ps bag fs = (Inr bag', fs') \<Longrightarrow>
   (\<forall>p \<in> set ps. fst (read_text p fs) \<noteq> None)
   \<and> bag' = bag_add_all pf (extra_lines fs ps) bag
   \<and> nodes fs' = nodes fs \<and> creatable fs' = creatable fs
   \<and> events fs' = events fs @ map Open_read ps"
proof (induction ps arbitrary: bag fs)
  case Nil
  then show ?case by (simp add: extra_lines_Nil bag_add_all_Nil)
next
  case (Cons p rest)
  from Cons.prems obtain doc where rd: "fst (read_text p fs) = Some doc"
    by (cases "fst (read_text p fs)") (simp_all add: read_new_paths_Cons del: read_new_paths.simps)
  with Cons.prems have "read_new_paths pf rest (bag_add_all pf (readlines doc) bag)
      (log_event (Open_read p) fs) = (Inr bag', fs')"
    by (simp add: read_new_paths_Cons del: read_new_paths.simps)
  from Cons.IH [OF this] rd show ?case
    by (simp add: fst_read_text_log extra_lines_log extra_lines_Cons_ok bag_add_all_append
        nodes_log_event creatable_log_event events_log_event)
qed

lemma read_new_paths_failure:
  "read_new_paths pf ps bag fs = (Inl e, fs') \<Longrightarrow>
   \<exists>pre p post. ps = pre @ p # post
     \<and> (\<forall>q \<in> set pre. fst (read_text q fs) \<noteq> None)
     \<and> fst (read_text p fs) = None
     \<and> e = extra_file_unreadable p
     \<and> nodes fs' = nodes fs \<and> creatable fs' = creatable fs
     \<and> events fs' = events fs @ map Open_read (pre @ [p])"
proof (induction ps arbitrary: bag fs)
  case Nil
  then show ?case by simp
next
  case (Cons p rest)
  show ?case
  proof (cases "fst (read_text p fs)")
    case None
    with Cons.prems have "e = extra_file_unreadable p" and "fs' = log_event (Open_read p) fs"
      by (simp_all add: read_new_paths_Cons del: read_new_paths.simps)
    with None have "p # rest = [] @ p # rest
       \<and> (\<forall>q \<in> set []. fst (read_text q fs) \<noteq> None)
       \<and> fst (read_text p fs) = None
       \<and> e = extra_file_unreadable p
       \<and> nodes fs' = nodes fs \<and> creatable fs' = creatable fs
       \<and> events fs' = events fs @ map Open_read ([] @ [p])"
      by (simp add: nodes_log_event creatable_log_event events_log_event)
    then show ?thesis by blast
  next
    case (Some doc)
    with Cons.prems have "read_new_paths pf rest (bag_add_all pf (readlines doc) bag)
        (log_event (Open_read p) fs) = (Inl e, fs')"
      by (simp add: read_new_paths_Cons del: read_new_paths.simps)
    from Cons.IH [OF this] obtain pre q post where
      r: "rest = pre @ q # post"
      and pre: "\<forall>x \<in> set pre. fst (read_text x fs) \<noteq> None"
      and q: "fst (read_text q fs) = None" "e = extra_file_unreadable q"
      and st: "nodes fs' = nodes fs" "creatable fs' = creatable fs"
      and ev: "events fs' = events fs @ [Open_read p] @ map Open_read (pre @ [q])"
      by (auto simp: fst_read_text_log nodes_log_event creatable_log_event events_log_event)
    from r pre q st ev Some have "p # rest = (p # pre) @ q # post
       \<and> (\<forall>x \<in> set (p # pre). fst (read_text x fs) \<noteq> None)
       \<and> fst (read_text q fs) = None
       \<and> e = extra_file_unreadable q
       \<and> nodes fs' = nodes fs \<and> creatable fs' = creatable fs
       \<and> events fs' = events fs @ map Open_read ((p # pre) @ [q])"
      by simp
    then show ?thesis by blast
  qed
qed

lemma read_new_paths_all_readable:
  "\<forall>p \<in> set ps. fst (read_text p fs) \<noteq> None \<Longrightarrow>
   \<exists>bag' fs'. read_new_paths pf ps bag fs = (Inr bag', fs')"
proof -
  assume all: "\<forall>p \<in> set ps. fst (read_text p fs) \<noteq> None"
  obtain r fs' where res: "read_new_paths pf ps bag fs = (r, fs')"
    by (cases "read_new_paths pf ps bag fs")
  show ?thesis
  proof (cases r)
    case (Inl e)
    with res read_new_paths_failure [of pf ps bag fs e fs'] all show ?thesis by auto
  next
    case (Inr b)
    with res show ?thesis by blast
  qed
qed

lemma read_new_paths_some_unreadable:
  assumes "\<exists>p \<in> set ps. fst (read_text p fs) = None"
  shows "\<exists>e fs'. read_new_paths pf ps bag fs = (Inl e, fs')"
proof -
  obtain r fs' where res: "read_new_paths pf ps bag fs = (r, fs')"
    by (cases "read_new_paths pf ps bag fs")
  show ?thesis
  proof (cases r)
    case (Inl e)
    with res show ?thesis by blast
  next
    case (Inr b)
    with res read_new_paths_success [of pf ps bag fs b fs'] assms show ?thesis by blast
  qed
qed

lemma read_new_paths_Nil: "read_new_paths pf [] bag fs = (Inr bag, fs)"
  by simp

lemma merge_unknown:
  "map_of (path_mapping idx) lang = None \<Longrightarrow>
   merge_language_files pf idx lang ps fs = (Inl (unrecognized_language lang), fs)"
  by (simp add: merge_language_files_def read_language_file_unknown)

lemma merge_unreadable:
  "map_of (path_mapping idx) lang = Some stem \<Longrightarrow>
   fst (read_text (language_path idx stem) fs) = None \<Longrightarrow>
   merge_language_files pf idx lang ps fs =
     (Inl (language_file_unreadable stem), log_event (Open_read (language_path idx stem)) fs)"
  by (simp add: merge_language_files_def read_language_file_unreadable)

lemma merge_read:
  "map_of (path_mapping idx) lang = Some stem \<Longrightarrow>
   fst (read_text (language_path idx stem) fs) = Some doc \<Longrightarrow>
   merge_language_files pf idx lang ps fs =
     (case read_new_paths pf ps (bag_add_all pf (readlines doc) [])
             (log_event (Open_read (language_path idx stem)) fs) of
        (Inl e, fs2) \<Rightarrow> (Inl e, fs2)
      | (Inr word_bag, fs2) \<Rightarrow>
          (case sort_word_list pf lang (set_iteration pf word_bag) of
             Inl e \<Rightarrow> (Inl e, fs2)
           | Inr words \<Rightarrow> write_to_language_file idx lang words fs2))"
  by (simp add: merge_language_files_def read_language_file_ok)

lemma merge_cases:
  fixes pf :: "('k::linorder) platform"
  obtains
    (unknown) "map_of (path_mapping idx) lang = None"
      "merge_language_files pf idx lang ps fs = (Inl (unrecognized_language lang), fs)"
  | (unreadable) stem where "map_of (path_mapping idx) lang = Some stem"
      "fst (read_text (language_path idx stem) fs) = None"
      "merge_language_files pf idx lang ps fs =
         (Inl (language_file_unreadable stem), log_event (Open_read (language_path idx stem)) fs)"
  | (extra) stem doc pre p post fs2 where "map_of (path_mapping idx) lang = Some stem"
      "fst (read_text (language_path idx stem) fs) = Some doc"
      "ps = pre @ p # post" "\<forall>q \<in> set pre. fst (read_text q fs) \<noteq> None"
      "fst (read_text p fs) = None"
      "nodes fs2 = nodes fs" "creatable fs2 = creatable fs"
      "events fs2 = events fs @ Open_read (language_path idx stem) # map Open_read (pre @ [p])"
      "merge_language_files pf idx lang ps fs = (Inl (extra_file_unreadable p), fs2)"
  | (unsorted) stem doc e fs2 where "map_of (path_mapping idx) lang = Some stem"
      "fst (read_text (language_path idx stem) fs) = Some doc"
      "\<forall>q \<in> set ps. fst (read_text q fs) \<noteq> None"
      "sort_word_list pf lang
         (set_iteration pf (bag_add_all pf (readlines doc @ extra_lines fs ps) [])) = Inl e"
      "nodes fs2 = nodes fs" "creatable fs2 = creatable fs"
      "events fs2 = events fs @ Open_read (language_path idx stem) # map Open_read ps"
      "merge_language_files pf idx lang ps fs = (Inl e, fs2)"
  | (sorted) stem doc words fs2 where "map_of (path_mapping idx) lang = Some stem"
      "fst (read_text (language_path idx stem) fs) = Some doc"
      "\<forall>q \<in> set ps. fst (read_text q fs) \<noteq> None"
      "sort_word_list pf lang
         (set_iteration pf (bag_add_all pf (readlines doc @ extra_lines fs ps) [])) = Inr words"
      "nodes fs2 = nodes fs" "creatable fs2 = creatable fs"
      "events fs2 = events fs @ Open_read (language_path idx stem) # map Open_read ps"
      "merge_language_files pf idx lang ps fs = write_to_language_file idx lang words fs2"
proof (cases "map_of (path_mapping idx) lang")
  case None
  from None merge_unknown [OF None, of pf ps fs] show ?thesis by (rule unknown)
next
  case (Some stem)
  let ?P = "language_path idx stem"
  let ?fs1 = "log_event (Open_read ?P) fs"
  show ?thesis
  proof (cases "fst (read_text ?P fs)")
    case None
    from \<open>map_of (path_mapping idx) lang = Some stem\<close> None
      merge_unreadable [OF \<open>map_of (path_mapping idx) lang = Some stem\<close> None, of pf ps]
    show ?thesis by (rule unreadable)
  next
    case (Some doc)
    note rd = this
    note m = merge_read [OF \<open>map_of (path_mapping idx) lang = Some stem\<close> rd, of pf ps]
    let ?bag0 = "bag_add_all pf (readlines doc) []"
    obtain r fs2 where rn: "read_new_paths pf ps ?bag0 ?fs1 = (r, fs2)"
      by (cases "read_new_paths pf ps ?bag0 ?fs1")
    show ?thesis
    proof (cases r)
      case (Inl e)
      from read_new_paths_failure [OF rn [unfolded Inl]]
      obtain pre p post where f: "ps = pre @ p # post"
        "\<forall>q \<in> set pre. fst (read_text q fs) \<noteq> None"
        "fst (read_text p fs) = None" "e = extra_file_unreadable p"
        "nodes fs2 = nodes fs" "creatable fs2 = creatable fs"
        "events fs2 = events fs @ Open_read ?P # map Open_read (pre @ [p])"
        by (auto simp: fst_read_text_log nodes_log_event creatable_log_event events_log_event)
      from m rn Inl f(4) have "merge_language_files pf idx lang ps fs = (Inl (extra_file_unreadable p), fs2)"
        by simp
      with \<open>map_of (path_mapping idx) lang = Some stem\<close> rd f show ?thesis
        by (intro extra)
    next
      case (Inr bag)
      from read_new_paths_success [OF rn [unfolded Inr]]
      have s: "\<forall>q \<in> set ps. fst (read_text q fs) \<noteq> None"
        "bag = bag_add_all pf (readlines doc @ extra_lines fs ps) []"
        "nodes fs2 = nodes fs" "creatable fs2 = creatable fs"
        "events fs2 = events fs @ Open_read ?P # map Open_read ps"
        by (simp_all add: fst_read_text_log extra_lines_log bag_add_all_append
            nodes_log_event creatable_log_event events_log_event)
      show ?thesis
      proof (cases "sort_word_list pf lang (set_iteration pf bag)")
        case (Inl e)
        with m rn Inr have "merge_language_files pf idx lang ps fs = (Inl e, fs2)"
          by simp
        with \<open>map_of (path_mapping idx) lang = Some stem\<close> rd s Inl show ?thesis
          by (intro unsorted) simp_all
      next
        case (Inr words)
        with m rn \<open>r = Inr bag\<close>
        have "merge_language_files pf idx lang ps fs = write_to_language_file idx lang words fs2"
          by simp
        with \<open>map_of (path_mapping idx) lang = Some stem\<close> rd s Inr show ?thesis
          by (intro sorted) simp_all
      qed
    qed
  qed
qed

subsection \<open>An extra file that cannot be read\<close>




subsection \<open>All or nothing\<close>

text \<open>
  Claim C1, as it is stated, asks that a merge that does not complete leaves the file of the
  language unchanged, also when the write fails. \<^verbatim>\<open>open(path, 'w')\<close> empties the file
  before anything is written: when the device then refuses the text, the old content is gone.
\<close>

theorem failed_write_empties_target:
  "fst (merge_language_files demo demo_index ''en'' []
          (disk_of [(''/w/english.txt'', quota_file 0 ''b\<newline>a\<newline>'')])) =
     Inl (LanguageDataError
       [Text ''Could not open language file '', Str ''english'', Text '' for writing''])
   \<and> nodes (disk_of [(''/w/english.txt'', quota_file 0 ''b\<newline>a\<newline>'')]) ''/w/english.txt'' =
     Some (quota_file 0 ''b\<newline>a\<newline>'')
   \<and> nodes (snd (merge_language_files demo demo_index ''en'' []
          (disk_of [(''/w/english.txt'', quota_file 0 ''b\<newline>a\<newline>'')]))) ''/w/english.txt'' =
     Some (quota_file 0 [])"
  by code_simp

text \<open>
  Claim C1, amended. A merge has one of three outcomes. It completes: the language file and
  every extra file were read, the words were sorted, and the language file holds the sorted
  words, one after the other, every other file being as before. Or it fails and every file
  is as before: this is so for every failure before the write, and for a write that fails
  at the open. Or everything was read and sorted, the open for writing succeeded and the
  device took only the first \<open>n\<close> characters of the text to write, which is the sorted words
  one after the other: then the error is the one of the write and the language file holds
  these \<open>n\<close> characters, every other file being as before.
\<close>

theorem merge_all_or_nothing_or_truncated:
  fixes pf :: "('k::linorder) platform"
  assumes "merge_language_files pf idx lang new_paths fs = (r, fs')"
  shows "(r = Inr () \<and>
          (\<exists>stem doc words f.
             map_of (path_mapping idx) lang = Some stem
             \<and> fst (read_text (language_path idx stem) fs) = Some doc
             \<and> (\<forall>q \<in> set new_paths. fst (read_text q fs) \<noteq> None)
             \<and> sort_word_list pf lang
                  (set_iteration pf
                     (bag_add_all pf (readlines doc @ extra_lines fs new_paths) [])) = Inr words
             \<and> nodes fs' (language_path idx stem) = Some (Regular f)
             \<and> content f = concat words
             \<and> (\<forall>q. q \<noteq> language_path idx stem \<longrightarrow> nodes fs' q = nodes fs q)))
       \<or> ((\<exists>e. r = Inl e) \<and> nodes fs' = nodes fs)
       \<or> (\<exists>stem doc f n words.
             r = Inl (language_file_unwritable stem)
             \<and> map_of (path_mapping idx) lang = Some stem
             \<and> fst (read_text (language_path idx stem) fs) = Some doc
             \<and> (\<forall>q \<in> set new_paths. fst (read_text q fs) \<noteq> None)
             \<and> sort_word_list pf lang
                  (set_iteration pf
                     (bag_add_all pf (readlines doc @ extra_lines fs new_paths) [])) = Inr words
             \<and> nodes fs (language_path idx stem) = Some (Regular f)
             \<and> on_write f = Quota n \<and> n < length (concat words)
             \<and> nodes fs' =
                 (nodes fs)(language_path idx stem \<mapsto> Regular (f\<lparr>content := take n (concat words)\<rparr>)))"
proof (cases rule: merge_cases [where pf=pf and idx=idx and lang=lang and ps=new_paths and fs=fs])
  case unknown
  with assms show ?thesis by auto
next
  case (unreadable stem)
  with assms show ?thesis by (auto simp: nodes_log_event)
next
  case (extra stem doc pre p post fs2)
  with assms show ?thesis by auto
next
  case (unsorted stem doc e fs2)
  with assms show ?thesis by auto
next
  case (sorted stem doc words fs2)
  let ?P = "language_path idx stem"
  note w = write_to_language_file_known [OF sorted(1), of words fs2]
  show ?thesis
  proof (cases "fst (write_lines ?P words fs2)")
    case True
    with w sorted(8) assms have r: "r = Inr ()" and fs': "fs' = snd (write_lines ?P words fs2)"
      by simp_all
    from write_lines_success [OF True] obtain f where
      f: "nodes fs' ?P = Some (Regular f)" "content f = concat words"
      unfolding fs' by blast
    have o: "\<forall>q. q \<noteq> ?P \<longrightarrow> nodes fs' q = nodes fs q"
      unfolding fs' using sorted(5) by (simp add: nodes_write_lines_other)
    from sorted(1-4) f o have "\<exists>stem doc words f.
             map_of (path_mapping idx) lang = Some stem
             \<and> fst (read_text (language_path idx stem) fs) = Some doc
             \<and> (\<forall>q \<in> set new_paths. fst (read_text q fs) \<noteq> None)
             \<and> sort_word_list pf lang
                  (set_iteration pf
                     (bag_add_all pf (readlines doc @ extra_lines fs new_paths) [])) = Inr words
             \<and> nodes fs' (language_path idx stem) = Some (Regular f)
             \<and> content f = concat words
             \<and> (\<forall>q. q \<noteq> language_path idx stem \<longrightarrow> nodes fs' q = nodes fs q)"
      by blast
    with r show ?thesis by blast
  next
    case False
    with w sorted(8) assms have r: "r = Inl (language_file_unwritable stem)"
      and fs': "fs' = snd (write_lines ?P words fs2)"
      by simp_all
    from write_lines_failure [OF False]
    show ?thesis
    proof
      assume "nodes (snd (write_lines ?P words fs2)) = nodes fs2"
      with r fs' sorted(5) show ?thesis by simp
    next
      assume "\<exists>f n. nodes fs2 ?P = Some (Regular f) \<and> on_write f = Quota n
          \<and> n < length (concat words)
          \<and> nodes (snd (write_lines ?P words fs2)) =
            (nodes fs2)(?P \<mapsto> Regular (f\<lparr>content := take n (concat words)\<rparr>))"
      then obtain f n where "nodes fs ?P = Some (Regular f)" "on_write f = Quota n"
          "n < length (concat words)"
          "nodes fs' = (nodes fs)(?P \<mapsto> Regular (f\<lparr>content := take n (concat words)\<rparr>))"
        unfolding fs' sorted(5) by blast
      with r sorted(1-4) have "\<exists>stem doc f n words.
             r = Inl (language_file_unwritable stem)
             \<and> map_of (path_mapping idx) lang = Some stem
             \<and> fst (read_text (language_path idx stem) fs) = Some doc
             \<and> (\<forall>q \<in> set new_paths. fst (read_text q fs) \<noteq> None)
             \<and> sort_word_list pf lang
                  (set_iteration pf
                     (bag_add_all pf (readlines doc @ extra_lines fs new_paths) [])) = Inr words
             \<and> nodes fs (language_path idx stem) = Some (Regular f)
             \<and> on_write f = Quota n \<and> n < length (concat words)
             \<and> nodes fs' =
                 (nodes fs)(language_path idx stem \<mapsto> Regular (f\<lparr>content := take n (concat words)\<rparr>))"
        by blast
      then show ?thesis by blast
    qed
  qed
qed

theorem merge_all_or_nothing_or_truncated_witness:
  "merge_language_files demo demo_index ''en'' [] demo_disk =
     (Inr (), snd (merge_language_files demo demo_index ''en'' [] demo_disk))
   \<and> (\<exists>f. nodes (snd (merge_language_files demo demo_index ''en'' [] demo_disk))
             ''/w/english.txt'' = Some (Regular f)
          \<and> content f = ''a\<newline>b\<newline>'')"
proof -
  have "fst (merge_language_files demo demo_index ''en'' [] demo_disk) = Inr ()"
    by code_simp
  then have a: "merge_language_files demo demo_index ''en'' [] demo_disk =
     (Inr (), snd (merge_language_files demo demo_index ''en'' [] demo_disk))"
    by (simp add: prod_eq_iff)
  have m: "map_of (path_mapping demo_index) ''en'' = Some ''english''"
    by (simp add: demo_index_def)
  have p: "language_path demo_index ''english'' = ''/w/english.txt''"
    by (simp add: language_path_def demo_index_def path_div_def)
  have d: "fst (read_text ''/w/english.txt'' demo_disk) = Some ''b\<newline>a\<newline>''"
    by code_simp
  have s: "sort_word_list demo ''en''
      (set_iteration demo (bag_add_all demo (readlines ''b\<newline>a\<newline>'' @ extra_lines demo_disk []) [])) =
      Inr [''a\<newline>'', ''b\<newline>'']"
    by code_simp
  from merge_all_or_nothing_or_truncated [OF a]
  have "\<exists>stem doc words f.
             map_of (path_mapping demo_index) ''en'' = Some stem
             \<and> fst (read_text (language_path demo_index stem) demo_disk) = Some doc
             \<and> sort_word_list demo ''en''
                  (set_iteration demo
                     (bag_add_all demo (readlines doc @ extra_lines demo_disk []) [])) = Inr words
             \<and> nodes (snd (merge_language_files demo demo_index ''en'' [] demo_disk))
                  (language_path demo_index stem) = Some (Regular f)
             \<and> content f = concat words"
    by auto
  then obtain stem doc words f where
    1: "map_of (path_mapping demo_index) ''en'' = Some stem"
    and 2: "fst (read_text (language_path demo_index stem) demo_disk) = Some doc"
    and 3: "sort_word_list demo ''en''
                  (set_iteration demo
                     (bag_add_all demo (readlines doc @ extra_lines demo_disk []) [])) = Inr words"
    and 4: "nodes (snd (merge_language_files demo demo_index ''en'' [] demo_disk))
                  (language_path demo_index stem) = Some (Regular f)"
    and 5: "content f = concat words"
    by blast
  from 1 m have stem: "stem = ''english''" by simp
  from 2 d have doc: "doc = ''b\<newline>a\<newline>''" unfolding stem p by simp
  from 3 s have words: "words = [''a\<newline>'', ''b\<newline>'']" unfolding doc by simp
  from 4 5 have "\<exists>f. nodes (snd (merge_language_files demo demo_index ''en'' [] demo_disk))
             ''/w/english.txt'' = Some (Regular f)
          \<and> content f = ''a\<newline>b\<newline>''"
    unfolding stem p words by simp
  with a show ?thesis by blast
qed

lemma sort_word_list_Inr:
  fixes pf :: "('k::linorder) platform"
  assumes "sort_word_list pf lang xs = Inr words"
  shows "\<exists>icu l. import_icu pf = Some icu \<and> getAvailableLocales icu lang = Some l
           \<and> words = sort_key (getSortKey icu \<lparr>col_locale = l, col_strength = IDENTICAL\<rparr>) xs"
  using assms
  by (auto simp: sort_word_list_def createInstance_def setStrength_def split: option.splits)

lemma sort_word_list_mset:
  fixes pf :: "('k::linorder) platform"
  assumes "sort_word_list pf lang xs = Inr words"
  shows "mset words = mset xs"
  using sort_word_list_Inr [OF assms] by auto

lemma sort_word_list_available:
  fixes pf :: "('k::linorder) platform"
  shows "import_icu pf = Some icu \<Longrightarrow> getAvailableLocales icu lang = Some l \<Longrightarrow>
    sort_word_list pf lang xs =
      Inr (sort_key (getSortKey icu \<lparr>col_locale = l, col_strength = IDENTICAL\<rparr>) xs)"
  by (simp add: sort_word_list_def createInstance_def setStrength_def)

lemma merge_success:
  fixes pf :: "('k::linorder) platform"
  assumes ok: "merge_language_files pf idx lang ps fs = (Inr u, fs')"
  shows "\<exists>stem doc words f.
      map_of (path_mapping idx) lang = Some stem
      \<and> fst (read_text (language_path idx stem) fs) = Some doc
      \<and> (\<forall>q \<in> set ps. fst (read_text q fs) \<noteq> None)
      \<and> sort_word_list pf lang
           (set_iteration pf (bag_add_all pf (readlines doc @ extra_lines fs ps) [])) = Inr words
      \<and> nodes fs' (language_path idx stem) = Some (Regular f)
      \<and> content f = concat words
      \<and> (\<forall>q. q \<noteq> language_path idx stem \<longrightarrow> nodes fs' q = nodes fs q)
      \<and> events fs' = events fs @ Open_read (language_path idx stem) # map Open_read ps
           @ [Open_write (language_path idx stem)]"
proof (cases rule: merge_cases [where pf=pf and idx=idx and lang=lang and ps=ps and fs=fs])
  case unknown
  with ok show ?thesis by simp
next
  case (unreadable stem)
  with ok show ?thesis by simp
next
  case (extra stem doc pre p post fs2)
  with ok show ?thesis by simp
next
  case (unsorted stem doc e fs2)
  with ok show ?thesis by simp
next
  case (sorted stem doc words fs2)
  let ?P = "language_path idx stem"
  note w = write_to_language_file_known [OF sorted(1), of words fs2]
  from w sorted(8) ok have t: "fst (write_lines ?P words fs2)"
    by (cases "fst (write_lines ?P words fs2)") simp_all
  with w sorted(8) ok have fs': "fs' = snd (write_lines ?P words fs2)"
    by simp
  from write_lines_success [OF t] obtain f where
    f: "nodes fs' ?P = Some (Regular f)" "content f = concat words"
    unfolding fs' by blast
  have o: "\<forall>q. q \<noteq> ?P \<longrightarrow> nodes fs' q = nodes fs q"
    unfolding fs' using sorted(5) by (simp add: nodes_write_lines_other)
  have ev: "events fs' = events fs @ Open_read ?P # map Open_read ps @ [Open_write ?P]"
    unfolding fs' by (simp add: events_write_lines sorted(7))
  from sorted(1-4) f o ev show ?thesis by blast
qed

lemma merge_total:
  fixes pf :: "('k::linorder) platform"
  assumes stem: "map_of (path_mapping idx) lang = Some stem"
    and node: "nodes fs (language_path idx stem) = Some (Regular f)"
    and rd: "readable f" and wr: "on_write f = Unlimited"
    and icu: "import_icu pf = Some icu" and loc: "getAvailableLocales icu lang = Some l"
  shows "\<exists>fs'. merge_language_files pf idx lang [] fs = (Inr (), fs')
     \<and> nodes fs' = (nodes fs)(language_path idx stem \<mapsto> Regular (f\<lparr>content :=
          concat (sort_key (getSortKey icu \<lparr>col_locale = l, col_strength = IDENTICAL\<rparr>)
            (set_iteration pf
               (bag_add_all pf (readlines (universal_newlines (content f))) [])))\<rparr>))"
proof -
  let ?P = "language_path idx stem"
  let ?doc = "universal_newlines (content f)"
  let ?fs1 = "log_event (Open_read ?P) fs"
  let ?words = "sort_key (getSortKey icu \<lparr>col_locale = l, col_strength = IDENTICAL\<rparr>)
            (set_iteration pf (bag_add_all pf (readlines ?doc) []))"
  from node rd have r: "fst (read_text ?P fs) = Some ?doc"
    by (simp add: read_text_def)
  have n1: "nodes ?fs1 ?P = Some (Regular f)"
    by (simp add: nodes_log_event node)
  have "merge_language_files pf idx lang [] fs = write_to_language_file idx lang ?words ?fs1"
    by (simp add: merge_read [OF stem r] sort_word_list_available [OF icu loc])
  also have "\<dots> = (Inr (), snd (write_lines ?P ?words ?fs1))"
    by (simp add: write_to_language_file_known [OF stem] write_lines_unlimited [OF n1 wr])
  finally have m: "merge_language_files pf idx lang [] fs = (Inr (), snd (write_lines ?P ?words ?fs1))" .
  have "nodes (snd (write_lines ?P ?words ?fs1)) =
      (nodes fs)(?P \<mapsto> Regular (f\<lparr>content := concat ?words\<rparr>))"
    by (simp add: write_lines_unlimited [OF n1 wr] nodes_log_event)
  with m show ?thesis by blast
qed

lemma count_list_distinct: "distinct xs \<Longrightarrow> x \<in> set xs \<Longrightarrow> count_list xs x = 1"
  by (induction xs) auto

subsection \<open>One word for the forms that NFC identifies\<close>

text \<open>
  Claim C2. The words of the program are the lines as they were read. When the lines of the
  language file and of the extra files contain two different lines \<open>w1\<close> and \<open>w2\<close> with the
  same NFC form, and the merge succeeds, the text written is the concatenation of a list of
  words in which this NFC form occurs exactly once; the list has no word twice and its words
  are exactly the NFC forms of the lines that were read. The iteration of a set is taken to
  give each element once.
\<close>

theorem equivalent_forms_merged_once:
  fixes pf :: "('k::linorder) platform"
  assumes ok: "merge_language_files pf idx lang new_paths fs = (Inr (), fs')"
    and stem: "map_of (path_mapping idx) lang = Some stem"
    and doc: "fst (read_text (language_path idx stem) fs) = Some doc"
    and w1: "w1 \<in> set (readlines doc @ extra_lines fs new_paths)"
    and w2: "w2 \<in> set (readlines doc @ extra_lines fs new_paths)"
    and distinct_forms: "w1 \<noteq> w2"
    and equivalent: "normalize_NFC pf w1 = normalize_NFC pf w2"
    and iteration: "\<forall>bag. mset (set_iteration pf bag) = mset bag"
  shows "\<exists>words f. nodes fs' (language_path idx stem) = Some (Regular f)
      \<and> content f = concat words
      \<and> count_list words (normalize_NFC pf w1) = 1
      \<and> count_list words (normalize_NFC pf w2) = 1
      \<and> distinct words
      \<and> set words = normalize_NFC pf ` set (readlines doc @ extra_lines fs new_paths)"
proof -
  let ?lines = "readlines doc @ extra_lines fs new_paths"
  let ?bag = "bag_add_all pf ?lines []"
  from merge_success [OF ok] stem doc obtain words f where
    s: "sort_word_list pf lang (set_iteration pf ?bag) = Inr words"
    and f: "nodes fs' (language_path idx stem) = Some (Regular f)" "content f = concat words"
    by auto
  from sort_word_list_mset [OF s] iteration have ms: "mset words = mset ?bag"
    by simp
  have db: "distinct ?bag" by (rule distinct_bag_add_all) simp
  have sb: "set ?bag = normalize_NFC pf ` set ?lines" by (simp add: set_bag_add_all)
  from ms db have dw: "distinct words"
    by (metis mset_eq_imp_distinct_iff)
  from ms sb have sw: "set words = normalize_NFC pf ` set ?lines"
    by (metis mset_eq_setD)
  from w1 sw have "normalize_NFC pf w1 \<in> set words" by blast
  with dw have c1: "count_list words (normalize_NFC pf w1) = 1"
    by (simp add: count_list_distinct)
  with equivalent have c2: "count_list words (normalize_NFC pf w2) = 1" by simp
  from f c1 c2 dw sw show ?thesis by blast
qed

theorem equivalent_forms_merged_once_witness:
  "merge_language_files demo demo_index ''en'' [''/tmp/new.txt'']
      (disk_of [(''/w/english.txt'', text_file (e_acute_composed @ [LF])),
                (''/tmp/new.txt'', text_file (e_acute_decomposed @ [LF]))]) =
     (Inr (), snd (merge_language_files demo demo_index ''en'' [''/tmp/new.txt'']
      (disk_of [(''/w/english.txt'', text_file (e_acute_composed @ [LF])),
                (''/tmp/new.txt'', text_file (e_acute_decomposed @ [LF]))])))
   \<and> e_acute_composed @ [LF] \<noteq> e_acute_decomposed @ [LF]
   \<and> normalize_NFC demo (e_acute_composed @ [LF]) = normalize_NFC demo (e_acute_decomposed @ [LF])
   \<and> (\<exists>words f.
        nodes (snd (merge_language_files demo demo_index ''en'' [''/tmp/new.txt'']
          (disk_of [(''/w/english.txt'', text_file (e_acute_composed @ [LF])),
                    (''/tmp/new.txt'', text_file (e_acute_decomposed @ [LF]))])))
          (language_path demo_index ''english'') = Some (Regular f)
        \<and> content f = concat words
        \<and> count_list words (normalize_NFC demo (e_acute_composed @ [LF])) = 1
        \<and> distinct words)"
proof -
  let ?d = "disk_of [(''/w/english.txt'', text_file (e_acute_composed @ [LF])),
                (''/tmp/new.txt'', text_file (e_acute_decomposed @ [LF]))]"
  have "fst (merge_language_files demo demo_index ''en'' [''/tmp/new.txt''] ?d) = Inr ()"
    by code_simp
  then have ok: "merge_language_files demo demo_index ''en'' [''/tmp/new.txt''] ?d =
     (Inr (), snd (merge_language_files demo demo_index ''en'' [''/tmp/new.txt''] ?d))"
    by (simp add: prod_eq_iff)
  have stem: "map_of (path_mapping demo_index) ''en'' = Some ''english''"
    by (simp add: demo_index_def)
  have doc: "fst (read_text (language_path demo_index ''english'') ?d) = Some (e_acute_composed @ [LF])"
    by code_simp
  have w1: "e_acute_composed @ [LF]
      \<in> set (readlines (e_acute_composed @ [LF]) @ extra_lines ?d [''/tmp/new.txt''])"
    by code_simp
  have w2: "e_acute_decomposed @ [LF]
      \<in> set (readlines (e_acute_composed @ [LF]) @ extra_lines ?d [''/tmp/new.txt''])"
    by code_simp
  have ne: "e_acute_composed @ [LF] \<noteq> e_acute_decomposed @ [LF]"
    by (simp add: e_acute_composed_def e_acute_decomposed_def)
  have eq: "normalize_NFC demo (e_acute_composed @ [LF]) = normalize_NFC demo (e_acute_decomposed @ [LF])"
    by (simp add: demo_def e_acute_composed_def e_acute_decomposed_def)
  have it: "\<forall>bag. mset (set_iteration demo bag) = mset bag"
    by (simp add: demo_def)
  from equivalent_forms_merged_once [OF ok stem doc w1 w2 ne eq it] ok ne eq
  show ?thesis by blast
qed

subsection \<open>Sorting what is sorted\<close>

lemma universal_newlines_id: "CR \<notin> set s \<Longrightarrow> universal_newlines s = s"
  by (induction s rule: universal_newlines.induct) auto

lemma bag_add_all_distinct:
  "distinct (bag @ ls) \<Longrightarrow> \<forall>w \<in> set ls. normalize_NFC pf w = w \<Longrightarrow>
   bag_add_all pf ls bag = bag @ ls"
proof (induction ls arbitrary: bag)
  case Nil
  then show ?case by (simp add: bag_add_all_Nil)
next
  case (Cons l ls)
  from Cons.prems have "bag_add (normalize_NFC pf l) bag = bag @ [l]"
    by (simp add: bag_add_def)
  moreover from Cons.prems have "distinct ((bag @ [l]) @ ls)" by simp
  moreover from Cons.prems have "\<forall>w \<in> set ls. normalize_NFC pf w = w" by simp
  ultimately show ?case
    using Cons.IH [of "bag @ [l]"] by (simp add: bag_add_all_Cons)
qed

text \<open>
  Claim C7, as it is stated, asks that a list that is sorted by the collation and has no
  word twice is written back as it is. The merge also normalises: a sorted list without
  duplicates that holds a word in decomposed form is rewritten with the composed form.
\<close>

theorem sorted_list_changed_by_normalisation:
  "readlines (universal_newlines (''a\<newline>'' @ e_acute_decomposed @ [LF])) =
      [''a\<newline>'', e_acute_decomposed @ [LF]]
   \<and> sorted (map (getSortKey icu_demo \<lparr>col_locale = Locale ''en'', col_strength = IDENTICAL\<rparr>)
        [''a\<newline>'', e_acute_decomposed @ [LF]])
   \<and> distinct [''a\<newline>'', e_acute_decomposed @ [LF]]
   \<and> fst (merge_language_files demo demo_index ''en'' []
        (disk_of [(''/w/english.txt'', text_file (''a\<newline>'' @ e_acute_decomposed @ [LF]))])) = Inr ()
   \<and> nodes (disk_of [(''/w/english.txt'', text_file (''a\<newline>'' @ e_acute_decomposed @ [LF]))])
        ''/w/english.txt'' = Some (text_file (''a\<newline>'' @ e_acute_decomposed @ [LF]))
   \<and> nodes (snd (merge_language_files demo demo_index ''en'' []
        (disk_of [(''/w/english.txt'', text_file (''a\<newline>'' @ e_acute_decomposed @ [LF]))])))
        ''/w/english.txt'' = Some (text_file (''a\<newline>'' @ e_acute_composed @ [LF]))
   \<and> ''a\<newline>'' @ e_acute_decomposed @ [LF] \<noteq> ''a\<newline>'' @ e_acute_composed @ [LF]"
  by code_simp

text \<open>
  Claim C7, amended. Let the file of a registered language be readable and writable, and let
  the collation have a locale for the language. When the lines of the file are in NFC, sorted
  by the sort key, without duplicates, and the sort key tells these lines apart, the sort
  command succeeds and writes the same lines back; a file without carriage returns is then
  the same text as before. And for a sort key that tells the words of a set apart, sorting
  any two enumerations of the set gives the same list. The iteration of a set is taken to
  give each element once.
\<close>

theorem sorted_normalised_list_is_kept:
  fixes pf :: "('k::linorder) platform"
  assumes stem: "map_of (path_mapping idx) lang = Some stem"
    and node: "nodes fs (language_path idx stem) = Some (Regular f)"
    and rd: "readable f" and wr: "on_write f = Unlimited"
    and icu: "import_icu pf = Some icu" and loc: "getAvailableLocales icu lang = Some l"
    and key: "key = getSortKey icu \<lparr>col_locale = l, col_strength = IDENTICAL\<rparr>"
    and lines: "ls = readlines (universal_newlines (content f))"
    and normalised: "\<forall>w \<in> set ls. normalize_NFC pf w = w"
    and sorted: "sorted (map key ls)"
    and deduplicated: "distinct ls"
    and identical: "inj_on key (set ls)"
    and iteration: "\<forall>bag. mset (set_iteration pf bag) = mset bag"
  shows "(\<exists>fs'. merge_language_files pf idx lang [] fs = (Inr (), fs')
            \<and> nodes fs' = (nodes fs)(language_path idx stem \<mapsto>
                 Regular (f\<lparr>content := concat ls\<rparr>))
            \<and> (CR \<notin> set (content f) \<longrightarrow> nodes fs' = nodes fs))
       \<and> (\<forall>xs ys. set xs = set ys \<and> distinct xs \<and> distinct ys \<and> inj_on key (set xs) \<longrightarrow>
            sort_word_list pf lang xs = sort_word_list pf lang ys
            \<and> sort_word_list pf lang xs = Inr (sort_key key xs))"
proof
  let ?P = "language_path idx stem"
  from deduplicated normalised have bag: "bag_add_all pf ls [] = ls"
    using bag_add_all_distinct [of "[]" ls pf] by simp
  from iteration have ms: "mset (set_iteration pf ls) = mset ls" by blast
  then have "set (set_iteration pf ls) = set ls" by (rule mset_eq_setD)
  with identical have "inj_on key (set (set_iteration pf ls))" by simp
  with ms sorted have sk: "sort_key key (set_iteration pf ls) = ls"
    by (intro sort_key_inj_key_eq)
  from merge_total [OF stem node rd wr icu loc]
  obtain fs' where m: "merge_language_files pf idx lang [] fs = (Inr (), fs')"
    and n: "nodes fs' = (nodes fs)(?P \<mapsto> Regular (f\<lparr>content := concat ls\<rparr>))"
    unfolding lines [symmetric] bag key [symmetric] sk by blast
  have "CR \<notin> set (content f) \<longrightarrow> nodes fs' = nodes fs"
  proof
    assume "CR \<notin> set (content f)"
    then have "concat ls = content f"
      by (simp add: lines concat_readlines universal_newlines_id)
    with n node show "nodes fs' = nodes fs" by (simp add: fun_upd_idem)
  qed
  with m n show "\<exists>fs'. merge_language_files pf idx lang [] fs = (Inr (), fs')
            \<and> nodes fs' = (nodes fs)(?P \<mapsto> Regular (f\<lparr>content := concat ls\<rparr>))
            \<and> (CR \<notin> set (content f) \<longrightarrow> nodes fs' = nodes fs)"
    by blast
next
  show "\<forall>xs ys. set xs = set ys \<and> distinct xs \<and> distinct ys \<and> inj_on key (set xs) \<longrightarrow>
            sort_word_list pf lang xs = sort_word_list pf lang ys
            \<and> sort_word_list pf lang xs = Inr (sort_key key xs)"
  proof (intro allI impI)
    fix xs ys :: "string list"
    assume a: "set xs = set ys \<and> distinct xs \<and> distinct ys \<and> inj_on key (set xs)"
    then have "mset xs = mset ys" using set_eq_iff_mset_eq_distinct [of xs ys] by blast
    moreover from a have "inj_on key (set ys)" by auto
    ultimately have "sort_key key xs = sort_key key ys"
      using a by (intro sort_key_eq_sort_key) simp_all
    then show "sort_word_list pf lang xs = sort_word_list pf lang ys
            \<and> sort_word_list pf lang xs = Inr (sort_key key xs)"
      by (simp add: sort_word_list_available [OF icu loc] key)
  qed
qed

theorem sorted_normalised_list_is_kept_witness:
  "(\<exists>fs'. merge_language_files demo demo_index ''en'' []
            (disk_of [(''/w/english.txt'', text_file ''a\<newline>b\<newline>'')]) = (Inr (), fs')
         \<and> nodes fs' = nodes (disk_of [(''/w/english.txt'', text_file ''a\<newline>b\<newline>'')]))
   \<and> sort_word_list demo ''en'' [''b\<newline>'', ''a\<newline>''] =
       sort_word_list demo ''en'' [''a\<newline>'', ''b\<newline>'']"
proof -
  let ?d = "disk_of [(''/w/english.txt'', text_file ''a\<newline>b\<newline>'')]"
  let ?f = "\<lparr>content = ''a\<newline>b\<newline>'', readable = True, on_write = Unlimited\<rparr>"
  let ?key = "getSortKey icu_demo \<lparr>col_locale = Locale ''en'', col_strength = IDENTICAL\<rparr>"
  let ?ls = "[''a\<newline>'', ''b\<newline>'']"
  have stem: "map_of (path_mapping demo_index) ''en'' = Some ''english''"
    by (simp add: demo_index_def)
  have node: "nodes ?d (language_path demo_index ''english'') = Some (Regular ?f)"
    by (simp add: disk_of_def text_file_def language_path_def demo_index_def path_div_def)
  have rd: "readable ?f" and wr: "on_write ?f = Unlimited"
    by simp_all
  have icu: "import_icu demo = Some icu_demo"
    by (simp add: demo_def)
  have loc: "getAvailableLocales icu_demo ''en'' = Some (Locale ''en'')"
    by (simp add: icu_demo_def)
  have key: "?key = ?key" ..
  have lines: "?ls = readlines (universal_newlines (content ?f))"
    by simp
  have normalised: "\<forall>w \<in> set ?ls. normalize_NFC demo w = w"
    by (simp add: demo_def)
  have sorted: "sorted (map ?key ?ls)"
    by code_simp
  have deduplicated: "distinct ?ls"
    by simp
  have identical: "inj_on ?key (set ?ls)"
    by (simp add: icu_demo_def)
  have iteration: "\<forall>bag. mset (set_iteration demo bag) = mset bag"
    by (simp add: demo_def)
  have cr: "CR \<notin> set (content ?f)"
    by simp
  have two: "set [''b\<newline>'', ''a\<newline>''] = set ?ls \<and> distinct [''b\<newline>'', ''a\<newline>''] \<and> distinct ?ls
      \<and> inj_on ?key (set [''b\<newline>'', ''a\<newline>''])"
    by (auto simp: icu_demo_def)
  note t = sorted_normalised_list_is_kept [OF stem node rd wr icu loc key lines normalised
      sorted deduplicated identical iteration]
  from t cr have 1: "\<exists>fs'. merge_language_files demo demo_index ''en'' [] ?d = (Inr (), fs')
         \<and> nodes fs' = nodes ?d"
    by blast
  from t two have 2: "sort_word_list demo ''en'' [''b\<newline>'', ''a\<newline>''] =
       sort_word_list demo ''en'' ?ls"
    by blast
  from 1 2 show ?thesis ..
qed

subsection \<open>Words are raw lines\<close>

lemma readlines_shape:
  "\<forall>l \<in> set (readlines s). l \<noteq> [] \<and> LF \<notin> set (butlast l)"
  by (induction s) (auto split: list.splits if_splits)

lemma readlines_terminated:
  "\<forall>l \<in> set (butlast (readlines s)). last l = LF"
proof (induction s)
  case Nil
  then show ?case by simp
next
  case (Cons c s)
  show ?case
  proof (cases "c = LF")
    case True
    with Cons show ?thesis by auto
  next
    case False
    show ?thesis
    proof (cases "readlines s")
      case Nil
      with False show ?thesis by simp
    next
      case (Cons l ls)
      then have "l \<in> set (readlines s)" by simp
      then have "l \<noteq> []" by (rule readlines_nonempty)
      with Cons.IH Cons False show ?thesis by auto
    qed
  qed
qed

text \<open>
  Claim C8. \<^verbatim>\<open>readlines\<close> cuts the text after each line feed and drops nothing: the
  lines put together are the text, every line but the last ends with its line feed, and a
  line has no other line feed. A merge that succeeds normalises these lines as they are,
  makes a set of them, sorts it with the sort key and writes the sorted words one after the
  other, with nothing between them. So a last line without a line feed is a word of its own:
  for the text \<^verbatim>\<open>b\na\na\<close> the lines \<^verbatim>\<open>a\n\<close> and \<^verbatim>\<open>a\<close> are both kept and the file
  written is \<^verbatim>\<open>aa\nb\n\<close>, the unterminated word fused with the next one; for the text
  \<^verbatim>\<open>a\nb\<close> the file written is \<^verbatim>\<open>a\nb\<close>, still unterminated.
\<close>

theorem words_are_raw_lines:
  fixes pf :: "('k::linorder) platform"
  shows "concat (readlines s) = s
   \<and> (\<forall>l \<in> set (readlines s). l \<noteq> [] \<and> LF \<notin> set (butlast l))
   \<and> (\<forall>l \<in> set (butlast (readlines s)). last l = LF)
   \<and> (\<forall>fs'. merge_language_files pf idx lang new_paths fs = (Inr (), fs') \<longrightarrow>
        (\<exists>stem doc icu l f.
           map_of (path_mapping idx) lang = Some stem
           \<and> fst (read_text (language_path idx stem) fs) = Some doc
           \<and> import_icu pf = Some icu \<and> getAvailableLocales icu lang = Some l
           \<and> set (bag_add_all pf (readlines doc @ extra_lines fs new_paths) []) =
               normalize_NFC pf ` set (readlines doc @ extra_lines fs new_paths)
           \<and> nodes fs' (language_path idx stem) = Some (Regular f)
           \<and> content f =
               concat (sort_key (getSortKey icu \<lparr>col_locale = l, col_strength = IDENTICAL\<rparr>)
                 (set_iteration pf
                    (bag_add_all pf (readlines doc @ extra_lines fs new_paths) [])))))
   \<and> readlines ''b\<newline>a\<newline>a'' = [''b\<newline>'', ''a\<newline>'', ''a'']
   \<and> fst (merge_language_files demo demo_index ''en'' []
        (disk_of [(''/w/english.txt'', text_file ''b\<newline>a\<newline>a'')])) = Inr ()
   \<and> nodes (snd (merge_language_files demo demo_index ''en'' []
        (disk_of [(''/w/english.txt'', text_file ''b\<newline>a\<newline>a'')]))) ''/w/english.txt'' =
      Some (text_file ''aa\<newline>b\<newline>'')
   \<and> nodes (snd (merge_language_files demo demo_index ''en'' []
        (disk_of [(''/w/english.txt'', text_file ''a\<newline>b'')]))) ''/w/english.txt'' =
      Some (text_file ''a\<newline>b'')"
proof (intro conjI allI impI)
  show "concat (readlines s) = s" by (rule concat_readlines)
  show "\<forall>l \<in> set (readlines s). l \<noteq> [] \<and> LF \<notin> set (butlast l)" by (rule readlines_shape)
  show "\<forall>l \<in> set (butlast (readlines s)). last l = LF" by (rule readlines_terminated)
next
  fix fs'
  assume ok: "merge_language_files pf idx lang new_paths fs = (Inr (), fs')"
  let ?bag = "bag_add_all pf (readlines doc @ extra_lines fs new_paths) []"
  from merge_success [OF ok] obtain stem doc words f where
    m: "map_of (path_mapping idx) lang = Some stem"
      "fst (read_text (language_path idx stem) fs) = Some doc"
    and s: "sort_word_list pf lang
        (set_iteration pf (bag_add_all pf (readlines doc @ extra_lines fs new_paths) [])) = Inr words"
    and f: "nodes fs' (language_path idx stem) = Some (Regular f)" "content f = concat words"
    by blast
  from sort_word_list_Inr [OF s] obtain icu l where
    i: "import_icu pf = Some icu" "getAvailableLocales icu lang = Some l"
    and w: "words = sort_key (getSortKey icu \<lparr>col_locale = l, col_strength = IDENTICAL\<rparr>)
        (set_iteration pf (bag_add_all pf (readlines doc @ extra_lines fs new_paths) []))"
    by blast
  have b: "set (bag_add_all pf (readlines doc @ extra_lines fs new_paths) []) =
      normalize_NFC pf ` set (readlines doc @ extra_lines fs new_paths)"
    by (simp add: set_bag_add_all)
  from m i b f w show "\<exists>stem doc icu l f.
           map_of (path_mapping idx) lang = Some stem
           \<and> fst (read_text (language_path idx stem) fs) = Some doc
           \<and> import_icu pf = Some icu \<and> getAvailableLocales icu lang = Some l
           \<and> set (bag_add_all pf (readlines doc @ extra_lines fs new_paths) []) =
               normalize_NFC pf ` set (readlines doc @ extra_lines fs new_paths)
           \<and> nodes fs' (language_path idx stem) = Some (Regular f)
           \<and> content f =
               concat (sort_key (getSortKey icu \<lparr>col_locale = l, col_strength = IDENTICAL\<rparr>)
                 (set_iteration pf
                    (bag_add_all pf (readlines doc @ extra_lines fs new_paths) [])))"
    by blast
next
  show "readlines ''b\<newline>a\<newline>a'' = [''b\<newline>'', ''a\<newline>'', ''a'']"
    by simp
  show "nodes (snd (merge_language_files demo demo_index ''en'' []
        (disk_of [(''/w/english.txt'', text_file ''a\<newline>b'')]))) ''/w/english.txt'' =
      Some (text_file ''a\<newline>b'')"
    by code_simp
  show "fst (merge_language_files demo demo_index ''en'' []
        (disk_of [(''/w/english.txt'', text_file ''b\<newline>a\<newline>a'')])) = Inr ()"
    by code_simp
  show "nodes (snd (merge_language_files demo demo_index ''en'' []
        (disk_of [(''/w/english.txt'', text_file ''b\<newline>a\<newline>a'')]))) ''/w/english.txt'' =
      Some (text_file ''aa\<newline>b\<newline>'')"
    by code_simp
qed

theorem words_are_raw_lines_witness:
  "merge_language_files demo demo_index ''en'' []
       (disk_of [(''/w/english.txt'', text_file ''b\<newline>a\<newline>a'')]) =
     (Inr (), snd (merge_language_files demo demo_index ''en'' []
       (disk_of [(''/w/english.txt'', text_file ''b\<newline>a\<newline>a'')])))
   \<and> concat (readlines ''b\<newline>a\<newline>a'') = ''b\<newline>a\<newline>a''
   \<and> (\<exists>stem doc f.
         map_of (path_mapping demo_index) ''en'' = Some stem
         \<and> fst (read_text (language_path demo_index stem)
               (disk_of [(''/w/english.txt'', text_file ''b\<newline>a\<newline>a'')])) = Some doc
         \<and> nodes (snd (merge_language_files demo demo_index ''en'' []
               (disk_of [(''/w/english.txt'', text_file ''b\<newline>a\<newline>a'')])))
              (language_path demo_index stem) = Some (Regular f))"
proof -
  let ?d = "disk_of [(''/w/english.txt'', text_file ''b\<newline>a\<newline>a'')]"
  have "fst (merge_language_files demo demo_index ''en'' [] ?d) = Inr ()"
    by code_simp
  then have a: "merge_language_files demo demo_index ''en'' [] ?d =
     (Inr (), snd (merge_language_files demo demo_index ''en'' [] ?d))"
    by (simp add: prod_eq_iff)
  from words_are_raw_lines [where s="''b\<newline>a\<newline>a''" and pf=demo and idx=demo_index
      and lang="''en''" and new_paths="[]" and fs="?d"] a
  show ?thesis by blast
qed

subsection \<open>\<^verbatim>\<open>sort-all\<close>\<close>


lemma sort_each_Cons_ok:
  fixes pf :: "('k::linorder) platform"
  shows "merge_language_files pf idx code [] fs = (Inr u, fs1) \<Longrightarrow>
    sort_each pf idx (code # rest) fs = sort_each pf idx rest fs1"
  by simp







subsection \<open>The type of the failures\<close>

lemma raised_as_LanguageDataError:
  "\<exists>m. unrecognized_language lang = LanguageDataError m"
  "\<exists>m. language_file_unreadable stem = LanguageDataError m"
  "\<exists>m. language_file_unwritable stem = LanguageDataError m"
  "\<exists>m. index_unreadable ip = LanguageDataError m"
  "\<exists>m. index_unparsable ip = LanguageDataError m"
  "\<exists>m. index_not_dictionary ip = LanguageDataError m"
  "\<exists>m. index_entry_invalid key ip = LanguageDataError m"
  "\<exists>m. icu_missing = LanguageDataError m"
  "\<exists>m. locale_unavailable lang = LanguageDataError m"
  by (simp_all add: unrecognized_language_def language_file_unreadable_def
      language_file_unwritable_def index_unreadable_def index_unparsable_def
      index_not_dictionary_def index_entry_invalid_def icu_missing_def locale_unavailable_def)

lemma read_language_file_failure:
  assumes "read_language_file idx lang fs = (Inl e, fs')"
  shows "e = unrecognized_language lang
    \<or> (\<exists>stem. map_of (path_mapping idx) lang = Some stem \<and> e = language_file_unreadable stem)"
proof (cases "map_of (path_mapping idx) lang")
  case None
  from read_language_file_unknown [OF None, of fs] assms show ?thesis by simp
next
  case (Some stem)
  show ?thesis
  proof (cases "fst (read_text (language_path idx stem) fs)")
    case None
    from read_language_file_unreadable [OF Some None] assms Some show ?thesis by simp
  next
    case (Some doc)
    from read_language_file_ok [OF \<open>map_of (path_mapping idx) lang = Some stem\<close> Some] assms
    show ?thesis by simp
  qed
qed

lemma write_to_language_file_failure:
  assumes "write_to_language_file idx lang words fs = (Inl e, fs')"
  shows "e = unrecognized_language lang
    \<or> (\<exists>stem. map_of (path_mapping idx) lang = Some stem \<and> e = language_file_unwritable stem)"
proof (cases "map_of (path_mapping idx) lang")
  case None
  from write_to_language_file_unknown [OF None, of words fs] assms show ?thesis by simp
next
  case (Some stem)
  from write_to_language_file_known [OF Some, of words fs] assms Some show ?thesis
    by (simp split: if_splits)
qed

lemma sort_word_list_failure:
  fixes pf :: "('k::linorder) platform"
  assumes "sort_word_list pf lang words = Inl e"
  shows "e = icu_missing \<or> e = locale_unavailable lang"
  using assms by (auto simp: sort_word_list_def Let_def split: option.splits)

lemma merge_failure:
  fixes pf :: "('k::linorder) platform"
  assumes "merge_language_files pf idx lang ps fs = (Inl e, fs')"
  shows "e = unrecognized_language lang
    \<or> (\<exists>stem. map_of (path_mapping idx) lang = Some stem \<and> e = language_file_unreadable stem)
    \<or> (\<exists>p \<in> set ps. fst (read_text p fs) = None \<and> e = extra_file_unreadable p)
    \<or> e = icu_missing \<or> e = locale_unavailable lang
    \<or> (\<exists>stem. map_of (path_mapping idx) lang = Some stem \<and> e = language_file_unwritable stem)"
proof (cases rule: merge_cases [where pf=pf and idx=idx and lang=lang and ps=ps and fs=fs])
  case unknown
  with assms show ?thesis by simp
next
  case (unreadable stem)
  with assms show ?thesis by simp
next
  case (extra stem doc pre p post fs2)
  from extra(3) have "p \<in> set ps" by simp
  with extra(5,9) assms show ?thesis by auto
next
  case (unsorted stem doc e' fs2)
  from unsorted(8) assms have "e' = e" by simp
  with sort_word_list_failure [OF unsorted(4)] show ?thesis by blast
next
  case (sorted stem doc words fs2)
  from sorted(8) assms have "write_to_language_file idx lang words fs2 = (Inl e, fs')" by simp
  from write_to_language_file_failure [OF this] show ?thesis by blast
qed

lemma fst_pass_error:
  "fst x = Inl e \<Longrightarrow>
   fst (case x of (Inl e', s) \<Rightarrow> (Inl e', s) | (Inr m, s) \<Rightarrow> f m s) = Inl e"
  by (cases x) (auto split: sum.splits)

lemma read_new_paths_first_unreadable:
  "\<forall>q \<in> set pre. fst (read_text q fs) \<noteq> None \<Longrightarrow> fst (read_text p fs) = None \<Longrightarrow>
   fst (read_new_paths pf (pre @ p # post) bag fs) = Inl (extra_file_unreadable p)"
proof (induction pre arbitrary: bag fs)
  case Nil
  then show ?case by (simp add: read_new_paths_Cons del: read_new_paths.simps)
next
  case (Cons q pre)
  from Cons.prems obtain doc where d: "fst (read_text q fs) = Some doc" by auto
  from Cons.prems have "\<forall>x \<in> set pre. fst (read_text x (log_event (Open_read q) fs)) \<noteq> None"
    and "fst (read_text p (log_event (Open_read q) fs)) = None"
    by (simp_all add: fst_read_text_log)
  from Cons.IH [OF this] d show ?case
    by (simp add: read_new_paths_Cons del: read_new_paths.simps)
qed

lemma exceptions_differ:
  "distinct
     [unrecognized_language a, language_file_unreadable b, language_file_unwritable c,
      index_unreadable d, index_unparsable e, index_not_dictionary f, index_entry_invalid g h,
      icu_missing, locale_unavailable i, extra_file_unreadable j, OSError k]"
  by (simp add: unrecognized_language_def language_file_unreadable_def
      language_file_unwritable_def index_unreadable_def index_unparsable_def
      index_not_dictionary_def index_entry_invalid_def icu_missing_def locale_unavailable_def
      extra_file_unreadable_def)

text \<open>
  What the program raises, and when. Each failure kind is raised, under its condition, as
  the exception of its own: the registry that cannot be read, that cannot be parsed, that is
  not a dictionary, the first entry that is not a string or whose file does not exist, the
  unknown language, the language file that cannot be read or written, the missing collation
  module and the missing locale are \<^verbatim>\<open>LanguageDataError\<close>s; the extra file that cannot be
  read is a \<^verbatim>\<open>SystemExit\<close>; the entry whose existence check fails is the \<^verbatim>\<open>OSError\<close> of
  the check. Whatever their arguments, these exceptions differ from one another, the
  \<^verbatim>\<open>LanguageDataError\<close>s by their message alone. And the registry load, the read, the
  write, the sort and the merge fail with no other exception than these.
\<close>

lemma failure_kinds_and_their_exceptions:
  fixes pf :: "('k::linorder) platform"
  shows
   "(fst (read_text (path_div root ''languages.json'') fs) = None \<longrightarrow>
       fst (enter pf root fs) = Inl (index_unreadable (path_div root ''languages.json'')))
    \<and> (\<forall>doc. fst (read_text (path_div root ''languages.json'') fs) = Some doc
          \<and> json_load pf doc = None \<longrightarrow>
       fst (enter pf root fs) = Inl (index_unparsable (path_div root ''languages.json'')))
    \<and> (\<forall>doc v. fst (read_text (path_div root ''languages.json'') fs) = Some doc
          \<and> json_load pf doc = Some v \<and> (\<forall>items. v \<noteq> PyDict items) \<longrightarrow>
       fst (enter pf root fs) = Inl (index_not_dictionary (path_div root ''languages.json'')))
    \<and> (\<forall>doc pre key val post.
          fst (read_text (path_div root ''languages.json'') fs) = Some doc
          \<and> json_load pf doc = Some (PyDict (pre @ (key, val) # post))
          \<and> (\<forall>(k, v) \<in> set pre. entry_ok fs root v)
          \<and> (\<forall>stem. val = PyStr stem \<longrightarrow> nodes fs (path_div root (stem @ ''.txt'')) = None) \<longrightarrow>
       fst (enter pf root fs) = Inl (index_entry_invalid key (path_div root ''languages.json'')))
    \<and> (\<forall>doc pre key stem post.
          fst (read_text (path_div root ''languages.json'') fs) = Some doc
          \<and> json_load pf doc = Some (PyDict (pre @ (key, PyStr stem) # post))
          \<and> (\<forall>(k, v) \<in> set pre. entry_ok fs root v)
          \<and> nodes fs (path_div root (stem @ ''.txt'')) = Some Inaccessible \<longrightarrow>
       fst (enter pf root fs) = Inl (OSError (path_div root (stem @ ''.txt''))))
    \<and> (map_of (path_mapping idx) lang = None \<longrightarrow>
       get_path idx lang = Inl (unrecognized_language lang))
    \<and> (\<forall>stem. map_of (path_mapping idx) lang = Some stem
          \<and> fst (read_text (language_path idx stem) fs) = None \<longrightarrow>
       fst (read_language_file idx lang fs) = Inl (language_file_unreadable stem))
    \<and> (\<forall>stem. map_of (path_mapping idx) lang = Some stem
          \<and> fst (write_lines (language_path idx stem) words fs) = False \<longrightarrow>
       fst (write_to_language_file idx lang words fs) = Inl (language_file_unwritable stem))
    \<and> (import_icu pf = None \<longrightarrow> sort_word_list pf lang words = Inl icu_missing)
    \<and> (\<forall>icu. import_icu pf = Some icu \<and> getAvailableLocales icu lang = None \<longrightarrow>
       sort_word_list pf lang words = Inl (locale_unavailable lang))
    \<and> (\<forall>stem doc pre p post. map_of (path_mapping idx) lang = Some stem
          \<and> fst (read_text (language_path idx stem) fs) = Some doc
          \<and> new_paths = pre @ p # post
          \<and> (\<forall>q \<in> set pre. fst (read_text q fs) \<noteq> None)
          \<and> fst (read_text p fs) = None \<longrightarrow>
       fst (merge_language_files pf idx lang new_paths fs) = Inl (extra_file_unreadable p))
    \<and> (\<forall>a b c d e f g h i.
         \<forall>x \<in> set [unrecognized_language a, language_file_unreadable b,
                    language_file_unwritable c, index_unreadable d, index_unparsable e,
                    index_not_dictionary f, index_entry_invalid g h, icu_missing,
                    locale_unavailable i].
           \<exists>m. x = LanguageDataError m)
    \<and> (\<forall>p. extra_file_unreadable p =
          SystemExit [Text ''Could not read '', Str p, Text ''. Aborting.''])
    \<and> (\<forall>a b c d e f g h i j k. distinct
         [unrecognized_language a, language_file_unreadable b, language_file_unwritable c,
          index_unreadable d, index_unparsable e, index_not_dictionary f,
          index_entry_invalid g h, icu_missing, locale_unavailable i,
          extra_file_unreadable j, OSError k])
    \<and> (\<forall>e fs'. enter pf root fs = (Inl e, fs') \<longrightarrow>
         e = index_unreadable (path_div root ''languages.json'')
         \<or> e = index_unparsable (path_div root ''languages.json'')
         \<or> e = index_not_dictionary (path_div root ''languages.json'')
         \<or> (\<exists>key. e = index_entry_invalid key (path_div root ''languages.json''))
         \<or> (\<exists>p. e = OSError p \<and> nodes fs p = Some Inaccessible))
    \<and> (\<forall>e. get_path idx lang = Inl e \<longrightarrow> e = unrecognized_language lang)
    \<and> (\<forall>e fs'. read_language_file idx lang fs = (Inl e, fs') \<longrightarrow>
         e = unrecognized_language lang
         \<or> (\<exists>stem. map_of (path_mapping idx) lang = Some stem
               \<and> e = language_file_unreadable stem))
    \<and> (\<forall>e fs'. write_to_language_file idx lang words fs = (Inl e, fs') \<longrightarrow>
         e = unrecognized_language lang
         \<or> (\<exists>stem. map_of (path_mapping idx) lang = Some stem
               \<and> e = language_file_unwritable stem))
    \<and> (\<forall>e. sort_word_list pf lang words = Inl e \<longrightarrow>
         e = icu_missing \<or> e = locale_unavailable lang)
    \<and> (\<forall>e fs'. merge_language_files pf idx lang new_paths fs = (Inl e, fs') \<longrightarrow>
         e = unrecognized_language lang
         \<or> (\<exists>stem. map_of (path_mapping idx) lang = Some stem
               \<and> e = language_file_unreadable stem)
         \<or> (\<exists>p \<in> set new_paths. fst (read_text p fs) = None \<and> e = extra_file_unreadable p)
         \<or> e = icu_missing \<or> e = locale_unavailable lang
         \<or> (\<exists>stem. map_of (path_mapping idx) lang = Some stem
               \<and> e = language_file_unwritable stem))"
proof (intro conjI allI impI ballI)
  let ?ip = "path_div root ''languages.json''"
  {
    assume "fst (read_text ?ip fs) = None"
    from enter_not_found [OF this, of pf]
    show "fst (enter pf root fs) = Inl (index_unreadable ?ip)" by simp
  next
    fix doc
    assume "fst (read_text ?ip fs) = Some doc \<and> json_load pf doc = None"
    then have "fst (read_text ?ip fs) = Some doc" "json_load pf doc = None" by simp_all
    from enter_not_parsed [OF this]
    show "fst (enter pf root fs) = Inl (index_unparsable ?ip)" by simp
  next
    fix doc v
    assume "fst (read_text ?ip fs) = Some doc \<and> json_load pf doc = Some v
        \<and> (\<forall>items. v \<noteq> PyDict items)"
    then have "fst (read_text ?ip fs) = Some doc" "json_load pf doc = Some v"
      "\<forall>items. v \<noteq> PyDict items" by simp_all
    from enter_not_dict [OF this]
    show "fst (enter pf root fs) = Inl (index_not_dictionary ?ip)" by simp
  next
    fix doc pre key val post
    assume a: "fst (read_text ?ip fs) = Some doc
          \<and> json_load pf doc = Some (PyDict (pre @ (key, val) # post))
          \<and> (\<forall>(k, v) \<in> set pre. entry_ok fs root v)
          \<and> (\<forall>stem. val = PyStr stem \<longrightarrow> nodes fs (path_div root (stem @ ''.txt'')) = None)"
    then have rd: "fst (read_text ?ip fs) = Some doc"
      and js: "json_load pf doc = Some (PyDict (pre @ (key, val) # post))" by simp_all
    from a have ok: "\<forall>(k, v) \<in> set pre. entry_ok (log_event (Open_read ?ip) fs) root v"
      by (simp add: entry_ok_log_event)
    from a have "\<forall>stem. val = PyStr stem \<longrightarrow>
        nodes (log_event (Open_read ?ip) fs) (path_div root (stem @ ''.txt'')) = None"
      by (simp add: nodes_log_event)
    from check_items_first_bad(1) [OF ok this, where ip="?ip" and key=key and post=post]
    show "fst (enter pf root fs) = Inl (index_entry_invalid key ?ip)"
      by (simp add: enter_dict [OF rd js] fst_pass_error)
  next
    fix doc pre key stem post
    assume a: "fst (read_text ?ip fs) = Some doc
          \<and> json_load pf doc = Some (PyDict (pre @ (key, PyStr stem) # post))
          \<and> (\<forall>(k, v) \<in> set pre. entry_ok fs root v)
          \<and> nodes fs (path_div root (stem @ ''.txt'')) = Some Inaccessible"
    then have rd: "fst (read_text ?ip fs) = Some doc"
      and js: "json_load pf doc = Some (PyDict (pre @ (key, PyStr stem) # post))" by simp_all
    from a have ok: "\<forall>(k, v) \<in> set pre. entry_ok (log_event (Open_read ?ip) fs) root v"
      by (simp add: entry_ok_log_event)
    from a have "nodes (log_event (Open_read ?ip) fs) (path_div root (stem @ ''.txt'')) =
        Some Inaccessible"
      by (simp add: nodes_log_event)
    from check_items_first_bad(2) [OF ok refl this, where ip="?ip" and key=key and post=post]
    show "fst (enter pf root fs) = Inl (OSError (path_div root (stem @ ''.txt'')))"
      by (simp add: enter_dict [OF rd js] fst_pass_error)
  next
    assume "map_of (path_mapping idx) lang = None"
    then show "get_path idx lang = Inl (unrecognized_language lang)"
      by (rule get_path_unknown)
  next
    fix stem
    assume "map_of (path_mapping idx) lang = Some stem
        \<and> fst (read_text (language_path idx stem) fs) = None"
    then have "map_of (path_mapping idx) lang = Some stem"
      "fst (read_text (language_path idx stem) fs) = None" by simp_all
    from read_language_file_unreadable [OF this]
    show "fst (read_language_file idx lang fs) = Inl (language_file_unreadable stem)" by simp
  next
    fix stem
    assume "map_of (path_mapping idx) lang = Some stem
        \<and> fst (write_lines (language_path idx stem) words fs) = False"
    then have m: "map_of (path_mapping idx) lang = Some stem"
      and w: "\<not> fst (write_lines (language_path idx stem) words fs)" by simp_all
    from write_to_language_file_known [OF m, of words fs] w
    show "fst (write_to_language_file idx lang words fs) = Inl (language_file_unwritable stem)"
      by simp
  next
    assume "import_icu pf = None"
    then show "sort_word_list pf lang words = Inl icu_missing"
      by (simp add: sort_word_list_def)
  next
    fix icu
    assume "import_icu pf = Some icu \<and> getAvailableLocales icu lang = None"
    then show "sort_word_list pf lang words = Inl (locale_unavailable lang)"
      by (simp add: sort_word_list_def)
  next
    fix stem doc pre p post
    assume a: "map_of (path_mapping idx) lang = Some stem
          \<and> fst (read_text (language_path idx stem) fs) = Some doc
          \<and> new_paths = pre @ p # post
          \<and> (\<forall>q \<in> set pre. fst (read_text q fs) \<noteq> None)
          \<and> fst (read_text p fs) = None"
    then have m: "map_of (path_mapping idx) lang = Some stem"
      and rd: "fst (read_text (language_path idx stem) fs) = Some doc"
      and np: "new_paths = pre @ p # post" by simp_all
    let ?fs1 = "log_event (Open_read (language_path idx stem)) fs"
    from a have "\<forall>q \<in> set pre. fst (read_text q ?fs1) \<noteq> None"
      and "fst (read_text p ?fs1) = None"
      by (simp_all add: fst_read_text_log)
    from read_new_paths_first_unreadable [OF this,
        where pf=pf and post=post and bag="bag_add_all pf (readlines doc) []"]
    show "fst (merge_language_files pf idx lang new_paths fs) = Inl (extra_file_unreadable p)"
      by (simp add: merge_read [OF m rd] np fst_pass_error)
  next
    fix a b c d e f g h i x
    assume "x \<in> set [unrecognized_language a, language_file_unreadable b,
                    language_file_unwritable c, index_unreadable d, index_unparsable e,
                    index_not_dictionary f, index_entry_invalid g h, icu_missing,
                    locale_unavailable i]"
    then show "\<exists>m. x = LanguageDataError m"
      using raised_as_LanguageDataError by auto
  next
    fix p
    show "extra_file_unreadable p =
          SystemExit [Text ''Could not read '', Str p, Text ''. Aborting.'']"
      by (simp add: extra_file_unreadable_def)
  next
    fix a b c d e f g h i j k
    show "distinct
         [unrecognized_language a, language_file_unreadable b, language_file_unwritable c,
          index_unreadable d, index_unparsable e, index_not_dictionary f,
          index_entry_invalid g h, icu_missing, locale_unavailable i,
          extra_file_unreadable j, OSError k]"
      by (rule exceptions_differ)
  next
    fix e fs'
    assume "enter pf root fs = (Inl e, fs')"
    then show "e = index_unreadable ?ip \<or> e = index_unparsable ?ip
         \<or> e = index_not_dictionary ?ip
         \<or> (\<exists>key. e = index_entry_invalid key ?ip)
         \<or> (\<exists>p. e = OSError p \<and> nodes fs p = Some Inaccessible)"
      by (rule enter_failure)
  next
    fix e
    assume "get_path idx lang = Inl e"
    then show "e = unrecognized_language lang"
      by (simp add: get_path_def split: option.splits)
  next
    fix e fs'
    assume "read_language_file idx lang fs = (Inl e, fs')"
    then show "e = unrecognized_language lang
         \<or> (\<exists>stem. map_of (path_mapping idx) lang = Some stem
               \<and> e = language_file_unreadable stem)"
      by (rule read_language_file_failure)
  next
    fix e fs'
    assume "write_to_language_file idx lang words fs = (Inl e, fs')"
    then show "e = unrecognized_language lang
         \<or> (\<exists>stem. map_of (path_mapping idx) lang = Some stem
               \<and> e = language_file_unwritable stem)"
      by (rule write_to_language_file_failure)
  next
    fix e
    assume "sort_word_list pf lang words = Inl e"
    then show "e = icu_missing \<or> e = locale_unavailable lang"
      by (rule sort_word_list_failure)
  next
    fix e fs'
    assume "merge_language_files pf idx lang new_paths fs = (Inl e, fs')"
    then show "e = unrecognized_language lang
         \<or> (\<exists>stem. map_of (path_mapping idx) lang = Some stem
               \<and> e = language_file_unreadable stem)
         \<or> (\<exists>p \<in> set new_paths. fst (read_text p fs) = None \<and> e = extra_file_unreadable p)
         \<or> e = icu_missing \<or> e = locale_unavailable lang
         \<or> (\<exists>stem. map_of (path_mapping idx) lang = Some stem
               \<and> e = language_file_unwritable stem)"
      by (rule merge_failure)
  }
qed

lemma failure_kinds_on_a_disk:
  "fst (enter demo ''/nowhere'' demo_disk) =
     Inl (index_unreadable (path_div ''/nowhere'' ''languages.json''))
   \<and> fst (enter demo ''/w''
        (disk_of [(''/w/languages.json'', text_file demo_registry),
                  (''/w/english.txt'', text_file ''b\<newline>a\<newline>'')])) =
     Inl (index_entry_invalid ''fr'' (path_div ''/w'' ''languages.json''))
   \<and> get_path demo_index ''xx'' = Inl (unrecognized_language ''xx'')
   \<and> fst (read_language_file demo_index ''en''
        (disk_of [(''/w/english.txt'',
                   Regular \<lparr>content = ''b\<newline>a\<newline>'', readable = False, on_write = Unlimited\<rparr>)])) =
     Inl (language_file_unreadable ''english'')
   \<and> fst (write_to_language_file demo_index ''en'' [''a\<newline>'']
        (disk_of [(''/w/english.txt'', quota_file 0 ''b\<newline>a\<newline>'')])) =
     Inl (language_file_unwritable ''english'')
   \<and> sort_word_list demo ''xx'' [''a\<newline>''] = Inl (locale_unavailable ''xx'')
   \<and> fst (merge_language_files demo demo_index ''en'' [''/tmp/missing.txt''] demo_disk) =
     Inl (extra_file_unreadable ''/tmp/missing.txt'')"
proof -
  let ?partial = "disk_of [(''/w/languages.json'', text_file demo_registry),
                  (''/w/english.txt'', text_file ''b\<newline>a\<newline>'')]"
  let ?locked = "disk_of [(''/w/english.txt'',
                   Regular \<lparr>content = ''b\<newline>a\<newline>'', readable = False, on_write = Unlimited\<rparr>)]"
  let ?full = "disk_of [(''/w/english.txt'', quota_file 0 ''b\<newline>a\<newline>'')]"
  note t = failure_kinds_and_their_exceptions [where pf=demo and idx=demo_index
      and words="[''a\<newline>'']" and new_paths="[''/tmp/missing.txt'']"]
  note not_found = t [THEN conjunct1, rule_format]
  note entry = t [THEN conjunct2, THEN conjunct2, THEN conjunct2, THEN conjunct1, rule_format]
  note unknown = t [THEN conjunct2, THEN conjunct2, THEN conjunct2, THEN conjunct2,
      THEN conjunct2, THEN conjunct1, rule_format]
  note unread = t [THEN conjunct2, THEN conjunct2, THEN conjunct2, THEN conjunct2,
      THEN conjunct2, THEN conjunct2, THEN conjunct1, rule_format]
  note unwritten = t [THEN conjunct2, THEN conjunct2, THEN conjunct2, THEN conjunct2,
      THEN conjunct2, THEN conjunct2, THEN conjunct2, THEN conjunct1, rule_format]
  note no_locale = t [THEN conjunct2, THEN conjunct2, THEN conjunct2, THEN conjunct2,
      THEN conjunct2, THEN conjunct2, THEN conjunct2, THEN conjunct2, THEN conjunct2,
      THEN conjunct1, rule_format]
  note extra = t [THEN conjunct2, THEN conjunct2, THEN conjunct2, THEN conjunct2,
      THEN conjunct2, THEN conjunct2, THEN conjunct2, THEN conjunct2, THEN conjunct2,
      THEN conjunct2, THEN conjunct1, rule_format]
  have en: "map_of (path_mapping demo_index) ''en'' = Some ''english''"
    by (simp add: demo_index_def)
  have h1: "fst (read_text (path_div ''/nowhere'' ''languages.json'') demo_disk) = None"
    by code_simp
  note r1 = not_found [OF h1]
  have a2: "fst (read_text (path_div ''/w'' ''languages.json'') ?partial) = Some demo_registry"
    by code_simp
  have b2: "json_load demo demo_registry =
      Some (PyDict ([(''en'', PyStr ''english'')] @ (''fr'', PyStr ''french'') # []))"
    by code_simp
  have c2: "\<forall>(k, v) \<in> set [(''en'', PyStr ''english'')]. entry_ok ?partial ''/w'' v"
    by (simp add: entry_ok_iff present_iff disk_of_def text_file_def path_div_def)
  have d2: "\<forall>stem. PyStr ''french'' = PyStr stem \<longrightarrow>
      nodes ?partial (path_div ''/w'' (stem @ ''.txt'')) = None"
    by (simp add: disk_of_def path_div_def)
  note r2 = entry [OF conjI [OF a2 conjI [OF b2 conjI [OF c2 d2]]]]
  have h3: "map_of (path_mapping demo_index) ''xx'' = None"
    by (simp add: demo_index_def)
  note r3 = unknown [OF h3]
  have a4: "fst (read_text (language_path demo_index ''english'') ?locked) = None"
    by code_simp
  note r4 = unread [OF conjI [OF en a4]]
  have a5: "fst (write_lines (language_path demo_index ''english'') [''a\<newline>''] ?full) = False"
    by code_simp
  note r5 = unwritten [OF conjI [OF en a5]]
  have h6: "import_icu demo = Some icu_demo \<and> getAvailableLocales icu_demo ''xx'' = None"
    by (simp add: demo_def icu_demo_def)
  note r6 = no_locale [OF h6]
  have a7: "fst (read_text (language_path demo_index ''english'') demo_disk) = Some ''b\<newline>a\<newline>''"
    by code_simp
  have b7: "[''/tmp/missing.txt''] = [] @ ''/tmp/missing.txt'' # []"
    by simp
  have c7: "\<forall>q \<in> set []. fst (read_text q demo_disk) \<noteq> None"
    by simp
  have d7: "fst (read_text ''/tmp/missing.txt'' demo_disk) = None"
    by code_simp
  note r7 = extra [OF conjI [OF en conjI [OF a7 conjI [OF b7 conjI [OF c7 d7]]]]]
  from r1 r2 r3 r4 r5 r6 r7 show ?thesis by (intro conjI)
qed

text \<open>
  Claim C10. Every failure kind but one is raised as \<^verbatim>\<open>LanguageDataError\<close>, the failure
  of an extra file as \<^verbatim>\<open>SystemExit\<close>. \<^verbatim>\<open>__enter__\<close> does so for its own failures: it
  catches the \<^verbatim>\<open>OSError\<close> of \<^verbatim>\<open>open\<close> and raises the \<^verbatim>\<open>LanguageDataError\<close> of the index
  that cannot be read, and it raises the \<^verbatim>\<open>LanguageDataError\<close> of the invalid entry when
  \<^verbatim>\<open>exists()\<close> is false. But it calls \<^verbatim>\<open>exists()\<close> outside any \<^verbatim>\<open>try\<close>. For an entry
  whose path cannot be examined, \<^verbatim>\<open>exists()\<close> raises, and the invalid entry leaves
  \<^verbatim>\<open>__enter__\<close> as an \<^verbatim>\<open>OSError\<close>, where the claim has a \<^verbatim>\<open>LanguageDataError\<close>. The
  registry below maps \<^verbatim>\<open>en\<close> to \<^verbatim>\<open>private/english\<close>: first with a file under
  \<^verbatim>\<open>private\<close> that cannot be examined, then with no such file, and last the index file
  itself cannot be examined.
\<close>

theorem unexaminable_entry_raises_OSError:
  "fst (enter demo ''/w''
          (disk_of [(''/w/languages.json'', text_file ''{\"en\": \"private/english\"}''),
                    (''/w/private'', Directory),
                    (''/w/private/english.txt'', Inaccessible)])) =
     Inl (OSError ''/w/private/english.txt'')
   \<and> fst (enter demo ''/w''
          (disk_of [(''/w/languages.json'', text_file ''{\"en\": \"private/english\"}''),
                    (''/w/private'', Directory)])) =
     Inl (LanguageDataError
       [Text ''Expected the key '', Repr ''en'', Text '' in '', Str ''/w/languages.json'',
        Text '' to point to a valid language file''])
   \<and> fst (enter demo ''/w'' (disk_of [(''/w/languages.json'', Inaccessible)])) =
     Inl (LanguageDataError
       [Text ''Could not read language index file '', Str ''/w/languages.json''])"
  by code_simp

end
